theory Spec2Isabelle
  imports Main "HOL-Library.Word"
begin

unbundle bit_operations_syntax

section \<open>The table codec of libnop (nop/base/table.h, nop/status.h)\<close>

text \<open>
  A shallow embedding of \<^verbatim>\<open>Encoding<Table>\<close> from \<^verbatim>\<open>include/nop/base/table.h\<close> and of
  \<^verbatim>\<open>ErrorStatus\<close> from \<^verbatim>\<open>include/nop/status.h\<close>. The compile-time recursion over
  \<^verbatim>\<open>Index<index>\<close> is recursion over a natural number, \<^verbatim>\<open>Table* value\<close> is passed in and
  returned, and every \<^verbatim>\<open>Status<void>\<close> is a value of a sum type paired with the stream it
  leaves behind. \<^verbatim>\<open>std::uint64_t\<close> and \<^verbatim>\<open>std::size_t\<close> (LP64) are 64-bit words.
\<close>

type_synonym byte = "8 word"
type_synonym u64 = "64 word"
type_synonym size_t = "64 word"

subsection \<open>status.h\<close>

text \<open>
  \<^verbatim>\<open>enum class ErrorStatus\<close> has the underlying type \<^verbatim>\<open>int\<close>; the functional cast
  \<^verbatim>\<open>ErrorStatus(x)\<close> that table.h uses is the constructor. The enumerators are the values
  0 to 16 in declaration order.
\<close>

datatype ErrorStatus = ErrorStatus int

definition None_ErrorStatus :: ErrorStatus where "None_ErrorStatus = ErrorStatus 0"
definition UnexpectedEncodingType :: ErrorStatus where "UnexpectedEncodingType = ErrorStatus 1"
definition UnexpectedHandleType :: ErrorStatus where "UnexpectedHandleType = ErrorStatus 2"
definition UnexpectedVariantType :: ErrorStatus where "UnexpectedVariantType = ErrorStatus 3"
definition InvalidContainerLength :: ErrorStatus where "InvalidContainerLength = ErrorStatus 4"
definition InvalidMemberCount :: ErrorStatus where "InvalidMemberCount = ErrorStatus 5"
definition InvalidStringLength :: ErrorStatus where "InvalidStringLength = ErrorStatus 6"
definition InvalidTableHash :: ErrorStatus where "InvalidTableHash = ErrorStatus 7"
definition InvalidHandleReference :: ErrorStatus where "InvalidHandleReference = ErrorStatus 8"
definition InvalidInterfaceMethod :: ErrorStatus where "InvalidInterfaceMethod = ErrorStatus 9"
definition DuplicateTableEntry :: ErrorStatus where "DuplicateTableEntry = ErrorStatus 10"
definition ReadLimitReached :: ErrorStatus where "ReadLimitReached = ErrorStatus 11"
definition WriteLimitReached :: ErrorStatus where "WriteLimitReached = ErrorStatus 12"
definition StreamError :: ErrorStatus where "StreamError = ErrorStatus 13"
definition ProtocolError :: ErrorStatus where "ProtocolError = ErrorStatus 14"
definition IOError :: ErrorStatus where "IOError = ErrorStatus 15"
definition SystemError :: ErrorStatus where "SystemError = ErrorStatus 16"

text \<open>\<^verbatim>\<open>Status<T>\<close> is \<^verbatim>\<open>Result<ErrorStatus, T>\<close>: an error or a value.\<close>

type_synonym 'a Status = "ErrorStatus + 'a"

text \<open>\<^verbatim>\<open>Status<T>::GetErrorMessage\<close>: the switch over the enumerators, with its default.\<close>

fun GetErrorMessage :: "ErrorStatus \<Rightarrow> string" where
  "GetErrorMessage (ErrorStatus e) =
     (if e = 0 then ''No Error''
      else if e = 1 then ''Unexpected Encoding Type''
      else if e = 2 then ''Unexpected Handle Type''
      else if e = 3 then ''Unexpected Variant Type''
      else if e = 4 then ''Invalid Container Length''
      else if e = 5 then ''Invalid Member Count''
      else if e = 6 then ''Invalid String Length''
      else if e = 7 then ''Invalid Table Hash''
      else if e = 8 then ''Invalid Handle Reference''
      else if e = 9 then ''Invalid Interface Method''
      else if e = 10 then ''Duplicate Table Hash''
      else if e = 11 then ''Read Limit Reached''
      else if e = 12 then ''Write Limit Reached''
      else if e = 13 then ''Stream Error''
      else if e = 14 then ''Protocol Error''
      else if e = 15 then ''IO Error''
      else if e = 16 then ''System Error''
      else ''Unknown Error'')"

subsection \<open>Collaborators of table.h that are not part of these two files\<close>

text \<open>
  Modelled from the spec: the byte sink and source of section 6 (the reader and writer
  classes of nop/utility are not among the sources). A writer is the sequence of bytes
  written so far, append-only; a reader is the sequence of bytes not yet consumed. Reading
  or skipping past the end is the underlying stream failure that the codec passes through.
\<close>

type_synonym Writer = "byte list"
type_synonym Reader = "byte list"

definition Writer_Write :: "byte \<Rightarrow> Writer \<Rightarrow> unit Status \<times> Writer" where
  "Writer_Write b writer = (Inr (), writer @ [b])"

definition Writer_Skip :: "size_t \<Rightarrow> byte \<Rightarrow> Writer \<Rightarrow> unit Status \<times> Writer" where
  "Writer_Skip padding_bytes padding_value writer =
     (Inr (), writer @ replicate (unat padding_bytes) padding_value)"

fun Reader_Read :: "Reader \<Rightarrow> byte Status \<times> Reader" where
  "Reader_Read [] = (Inl StreamError, [])"
| "Reader_Read (b # reader) = (Inr b, reader)"

definition Reader_Skip :: "size_t \<Rightarrow> Reader \<Rightarrow> unit Status \<times> Reader" where
  "Reader_Skip padding_bytes reader =
     (if unat padding_bytes \<le> length reader
      then (Inr (), drop (unat padding_bytes) reader)
      else (Inl StreamError, reader))"

text \<open>
  Modelled from the spec: the bounded byte window of section 4.1 (nop/utility/bounded_writer.h
  and bounded_reader.h are not among the sources). \<^verbatim>\<open>BoundedWriter<Writer>{writer, size}\<close>
  wraps the writer, counts the bytes emitted, fails with \<^verbatim>\<open>WriteLimitReached\<close> beyond the
  limit, and \<^verbatim>\<open>WritePadding\<close> emits the shortfall as zero bytes.
  \<^verbatim>\<open>BoundedReader<Reader>{reader, size}\<close> wraps the reader, counts the bytes consumed,
  fails with \<^verbatim>\<open>ReadLimitReached\<close> beyond the limit, and \<^verbatim>\<open>ReadPadding\<close> skips the bytes of
  the window that were not consumed.
\<close>

datatype BoundedWriter = BoundedWriter (bw_writer: Writer) (bw_size: size_t) (bw_index: size_t)

datatype BoundedReader = BoundedReader (br_reader: Reader) (br_size: size_t) (br_index: size_t)

fun BoundedWriter_Write :: "byte \<Rightarrow> BoundedWriter \<Rightarrow> unit Status \<times> BoundedWriter" where
  "BoundedWriter_Write b (BoundedWriter writer sz idx) =
     (if idx < sz
      then (case Writer_Write b writer of
              (Inl e, writer') \<Rightarrow> (Inl e, BoundedWriter writer' sz idx)
            | (Inr _, writer') \<Rightarrow> (Inr (), BoundedWriter writer' sz (idx + 1)))
      else (Inl WriteLimitReached, BoundedWriter writer sz idx))"

fun WritePadding :: "BoundedWriter \<Rightarrow> unit Status \<times> BoundedWriter" where
  "WritePadding (BoundedWriter writer sz idx) =
     (let padding_bytes = sz - idx in
      case Writer_Skip padding_bytes 0 writer of
        (Inl e, writer') \<Rightarrow> (Inl e, BoundedWriter writer' sz idx)
      | (Inr _, writer') \<Rightarrow> (Inr (), BoundedWriter writer' sz (idx + padding_bytes)))"

fun BoundedReader_Read :: "BoundedReader \<Rightarrow> byte Status \<times> BoundedReader" where
  "BoundedReader_Read (BoundedReader reader sz idx) =
     (if idx < sz
      then (case Reader_Read reader of
              (Inl e, reader') \<Rightarrow> (Inl e, BoundedReader reader' sz idx)
            | (Inr b, reader') \<Rightarrow> (Inr b, BoundedReader reader' sz (idx + 1)))
      else (Inl ReadLimitReached, BoundedReader reader sz idx))"

fun ReadPadding :: "BoundedReader \<Rightarrow> unit Status \<times> BoundedReader" where
  "ReadPadding (BoundedReader reader sz idx) =
     (let padding_bytes = sz - idx in
      case Reader_Skip padding_bytes reader of
        (Inl e, reader') \<Rightarrow> (Inl e, BoundedReader reader' sz idx)
      | (Inr _, reader') \<Rightarrow> (Inr (), BoundedReader reader' sz (idx + padding_bytes)))"

text \<open>
  \<^verbatim>\<open>Encoding<T>\<close> for a type other than the table (nop/base/encoding.h and the per-type
  encodings are not among the sources) is a parameter: its \<^verbatim>\<open>Size\<close>, \<^verbatim>\<open>Write\<close> and
  \<^verbatim>\<open>Read\<close>, over the writer type \<open>'w\<close> and the reader type \<open>'r\<close> it is used with.
  \<^verbatim>\<open>Read(T* value, Reader* reader)\<close> takes the object it decodes into and returns it.
\<close>

record ('v, 'r, 'w) Encoding =
  Size :: "'v \<Rightarrow> size_t"
  Write :: "'v \<Rightarrow> 'w \<Rightarrow> unit Status \<times> 'w"
  Read :: "'v \<Rightarrow> 'r \<Rightarrow> unit Status \<times> 'v \<times> 'r"

text \<open>
  The constants and the integer encoding that table.h takes from headers outside these
  sources, as parameters: the errno macro \<^verbatim>\<open>EPROTO\<close>, the prefix bytes
  \<^verbatim>\<open>EncodingByte::Table\<close> and \<^verbatim>\<open>EncodingByte::Binary\<close>, and
  \<^verbatim>\<open>Encoding<std::uint64_t>\<close>, which table.h uses on the unbounded reader and writer.
\<close>

record nop =
  EPROTO :: int
  EncodingByte_Table :: byte
  EncodingByte_Binary :: byte
  Encoding_uint64 :: "(u64, Reader, Writer) Encoding"

text \<open>
  Modelled from the spec: \<^verbatim>\<open>BaseEncodingSize(prefix)\<close> of nop/base/encoding.h, the size of
  the table marker, which section 4.3 emits as one byte.
\<close>

definition BaseEncodingSize :: "byte \<Rightarrow> size_t" where
  "BaseEncodingSize prefix = 1"

subsection \<open>table.h: entries and tables\<close>

text \<open>
  \<^verbatim>\<open>Entry<T, Id, ActiveEntry>\<close> is an \<^verbatim>\<open>Optional<T>\<close> with the id; the type \<^verbatim>\<open>T\<close> is
  carried as its encoding over the bounded window and its default value \<^verbatim>\<open>T{}\<close>.
  \<^verbatim>\<open>Entry<T, Id, DeletedEntry>\<close> has the id and no payload.
\<close>

datatype 'v Entry =
    ActiveEntry (Entry_Id: u64) (Encoding_T: "('v, BoundedReader, BoundedWriter) Encoding")
      (T_default: 'v) (optional: "'v option")
  | DeletedEntry (Entry_Id: u64)

fun Entry_empty :: "'v Entry \<Rightarrow> bool" where
  "Entry_empty (ActiveEntry ident T t0 opt) = (case opt of None \<Rightarrow> True | Some _ \<Rightarrow> False)"
| "Entry_empty (DeletedEntry ident) = True"

definition Entry_bool :: "'v Entry \<Rightarrow> bool" where
  "Entry_bool entry = (\<not> Entry_empty entry)"

fun Entry_clear :: "'v Entry \<Rightarrow> 'v Entry" where
  "Entry_clear (ActiveEntry ident T t0 opt) = ActiveEntry ident T t0 None"
| "Entry_clear (DeletedEntry ident) = DeletedEntry ident"

text \<open>
  A table value: the entries that \<^verbatim>\<open>NOP_TABLE\<close> lists, in that order, and the hash of the
  table name (\<^verbatim>\<open>EntryList::Hash\<close>; SipHash is not among the sources). The
  \<^verbatim>\<open>static_assert\<close> of \<^verbatim>\<open>EntryList\<close> demands unique entry ids.
\<close>

record 'v Table =
  Hash :: u64
  Entries :: "'v Entry list"

definition EntryList_unique :: "'v Entry list \<Rightarrow> bool" where
  "EntryList_unique entries = distinct (map Entry_Id entries)"

subsection \<open>table.h: size and write\<close>

definition Table_Prefix :: "nop \<Rightarrow> 'v Table \<Rightarrow> byte" where
  "Table_Prefix N value = EncodingByte_Table N"

definition Table_Match :: "nop \<Rightarrow> byte \<Rightarrow> bool" where
  "Table_Match N prefix = (prefix = EncodingByte_Table N)"

text \<open>\<^verbatim>\<open>ActiveEntryCount(value, Index<index>)\<close>, with \<^verbatim>\<open>PointerAt<index - 1>\<close>.\<close>

fun ActiveEntryCount :: "'v Entry list \<Rightarrow> nat \<Rightarrow> size_t" where
  "ActiveEntryCount value 0 = 0"
| "ActiveEntryCount value (Suc index) =
     (let count = (if Entry_bool (value ! index) then 1 else 0)
      in ActiveEntryCount value index + count)"

text \<open>\<^verbatim>\<open>Size(const Entry<T, Id, ActiveEntry>&)\<close> and \<^verbatim>\<open>Size(const Entry<T, Id, DeletedEntry>&)\<close>.\<close>

fun Size_Entry :: "nop \<Rightarrow> 'v Entry \<Rightarrow> size_t" where
  "Size_Entry N (ActiveEntry ident T t0 opt) =
     (case opt of
        Some v \<Rightarrow> Size (Encoding_uint64 N) ident + Size T v
      | None \<Rightarrow> 0)"
| "Size_Entry N (DeletedEntry ident) = 0"

text \<open>\<^verbatim>\<open>Size(value, Index<index>)\<close>.\<close>

fun Size_Index :: "nop \<Rightarrow> 'v Entry list \<Rightarrow> nat \<Rightarrow> size_t" where
  "Size_Index N value 0 = 0"
| "Size_Index N value (Suc index) = Size_Index N value index + Size_Entry N (value ! index)"

text \<open>\<^verbatim>\<open>Size(const Table& value)\<close>; \<^verbatim>\<open>Count\<close> is the number of entries.\<close>

definition Table_Size :: "nop \<Rightarrow> 'v Table \<Rightarrow> size_t" where
  "Table_Size N value =
     BaseEncodingSize (Table_Prefix N value) +
     Size (Encoding_uint64 N) (Hash value) +
     Size (Encoding_uint64 N) (ActiveEntryCount (Entries value) (length (Entries value))) +
     Size_Index N (Entries value) (length (Entries value))"

text \<open>\<^verbatim>\<open>ClearEntries(value, Index<index>)\<close>.\<close>

fun ClearEntries :: "'v Entry list \<Rightarrow> nat \<Rightarrow> 'v Entry list" where
  "ClearEntries value 0 = value"
| "ClearEntries value (Suc index) =
     (let value' = ClearEntries value index
      in value'[index := Entry_clear (value' ! index)])"

text \<open>
  \<^verbatim>\<open>WriteEntry\<close> for an active and for a deleted entry. The bounded writer is built on the
  writer and the writer continues from where the bounded writer left it.
\<close>

fun WriteEntry :: "nop \<Rightarrow> 'v Entry \<Rightarrow> Writer \<Rightarrow> unit Status \<times> Writer" where
  "WriteEntry N (ActiveEntry ident T t0 opt) writer =
     (case opt of
        Some v \<Rightarrow>
          (case Write (Encoding_uint64 N) ident writer of
             (Inl e, writer1) \<Rightarrow> (Inl e, writer1)
           | (Inr _, writer1) \<Rightarrow>
          (case Writer_Write (EncodingByte_Binary N) writer1 of
             (Inl e, writer2) \<Rightarrow> (Inl e, writer2)
           | (Inr _, writer2) \<Rightarrow>
          (let sz = Size T v in
           case Write (Encoding_uint64 N) sz writer2 of
             (Inl e, writer3) \<Rightarrow> (Inl e, writer3)
           | (Inr _, writer3) \<Rightarrow>
          (case Write T v (BoundedWriter writer3 sz 0) of
             (Inl e, bounded_writer) \<Rightarrow> (Inl e, bw_writer bounded_writer)
           | (Inr _, bounded_writer) \<Rightarrow>
          (case WritePadding bounded_writer of
             (status, bounded_writer') \<Rightarrow> (status, bw_writer bounded_writer'))))))
      | None \<Rightarrow> (Inr (), writer))"
| "WriteEntry N (DeletedEntry ident) writer = (Inr (), writer)"

text \<open>\<^verbatim>\<open>WriteEntries(value, writer, Index<index>)\<close>.\<close>

fun WriteEntries :: "nop \<Rightarrow> 'v Entry list \<Rightarrow> Writer \<Rightarrow> nat \<Rightarrow> unit Status \<times> Writer" where
  "WriteEntries N value writer 0 = (Inr (), writer)"
| "WriteEntries N value writer (Suc index) =
     (case WriteEntries N value writer index of
        (Inl e, writer') \<Rightarrow> (Inl e, writer')
      | (Inr _, writer') \<Rightarrow> WriteEntry N (value ! index) writer')"

definition Table_WritePayload ::
  "nop \<Rightarrow> byte \<Rightarrow> 'v Table \<Rightarrow> Writer \<Rightarrow> unit Status \<times> Writer" where
  "Table_WritePayload N prefix value writer =
     (case Write (Encoding_uint64 N) (Hash value) writer of
        (Inl e, writer1) \<Rightarrow> (Inl e, writer1)
      | (Inr _, writer1) \<Rightarrow>
     (case Write (Encoding_uint64 N)
             (ActiveEntryCount (Entries value) (length (Entries value))) writer1 of
        (Inl e, writer2) \<Rightarrow> (Inl e, writer2)
      | (Inr _, writer2) \<Rightarrow>
          WriteEntries N (Entries value) writer2 (length (Entries value))))"

subsection \<open>table.h: read\<close>

text \<open>\<^verbatim>\<open>SkipEntry(reader)\<close>: skips over the binary container of an entry.\<close>

definition SkipEntry :: "nop \<Rightarrow> Reader \<Rightarrow> unit Status \<times> Reader" where
  "SkipEntry N reader =
     (case Reader_Read reader of
        (Inl e, reader1) \<Rightarrow> (Inl e, reader1)
      | (Inr prefix, reader1) \<Rightarrow>
          if prefix \<noteq> EncodingByte_Binary N then (Inl (ErrorStatus (EPROTO N)), reader1)
          else
            (case Read (Encoding_uint64 N) 0 reader1 of
               (Inl e, sz, reader2) \<Rightarrow> (Inl e, reader2)
             | (Inr _, sz, reader2) \<Rightarrow> Reader_Skip sz reader2))"

text \<open>
  \<^verbatim>\<open>ReadEntry\<close> for an active and for a deleted entry; the entry is returned as the call
  leaves it. The local \<^verbatim>\<open>size\<close> that \<^verbatim>\<open>Encoding<std::uint64_t>::Read\<close> fills is passed
  in as 0.
\<close>

fun ReadEntry :: "nop \<Rightarrow> 'v Entry \<Rightarrow> Reader \<Rightarrow> unit Status \<times> 'v Entry \<times> Reader" where
  "ReadEntry N (ActiveEntry ident T t0 opt) reader =
     (if Entry_empty (ActiveEntry ident T t0 opt) then
        (case Reader_Read reader of
           (Inl e, reader1) \<Rightarrow> (Inl e, ActiveEntry ident T t0 opt, reader1)
         | (Inr prefix, reader1) \<Rightarrow>
             if prefix \<noteq> EncodingByte_Binary N
             then (Inl (ErrorStatus (EPROTO N)), ActiveEntry ident T t0 opt, reader1)
             else
               (case Read (Encoding_uint64 N) 0 reader1 of
                  (Inl e, sz, reader2) \<Rightarrow> (Inl e, ActiveEntry ident T t0 opt, reader2)
                | (Inr _, sz, reader2) \<Rightarrow>
               (case Read T t0 (BoundedReader reader2 sz 0) of
                  (Inl e, v, bounded_reader) \<Rightarrow>
                    (Inl e, ActiveEntry ident T t0 (Some v), br_reader bounded_reader)
                | (Inr _, v, bounded_reader) \<Rightarrow>
               (case ReadPadding bounded_reader of
                  (status, bounded_reader') \<Rightarrow>
                    (status, ActiveEntry ident T t0 (Some v), br_reader bounded_reader')))))
      else (Inl (ErrorStatus (EPROTO N)), ActiveEntry ident T t0 opt, reader))"
| "ReadEntry N (DeletedEntry ident) reader =
     (case SkipEntry N reader of (status, reader') \<Rightarrow> (status, DeletedEntry ident, reader'))"

text \<open>\<^verbatim>\<open>ReadEntryForId(value, id, reader, Index<index>)\<close>.\<close>

fun ReadEntryForId ::
  "nop \<Rightarrow> 'v Entry list \<Rightarrow> u64 \<Rightarrow> Reader \<Rightarrow> nat \<Rightarrow> unit Status \<times> 'v Entry list \<times> Reader" where
  "ReadEntryForId N value ident reader 0 =
     (case SkipEntry N reader of (status, reader') \<Rightarrow> (status, value, reader'))"
| "ReadEntryForId N value ident reader (Suc index) =
     (if Entry_Id (value ! index) = ident
      then (case ReadEntry N (value ! index) reader of
              (status, entry, reader') \<Rightarrow> (status, value[index := entry], reader'))
      else ReadEntryForId N value ident reader index)"

text \<open>
  The loop of \<^verbatim>\<open>ReadEntries(value, count, reader)\<close>, from the counter \<^verbatim>\<open>i\<close> on; the
  counter is a \<^verbatim>\<open>std::uint64_t\<close> as \<^verbatim>\<open>count\<close> is.
\<close>

function ReadEntries_loop ::
  "nop \<Rightarrow> 'v Entry list \<Rightarrow> u64 \<Rightarrow> Reader \<Rightarrow> u64 \<Rightarrow> unit Status \<times> 'v Entry list \<times> Reader" where
  "ReadEntries_loop N value count reader i =
     (if i < count then
        (case Read (Encoding_uint64 N) 0 reader of
           (Inl e, ident, reader1) \<Rightarrow> (Inl e, value, reader1)
         | (Inr _, ident, reader1) \<Rightarrow>
        (case ReadEntryForId N value ident reader1 (length value) of
           (Inl e, value', reader2) \<Rightarrow> (Inl e, value', reader2)
         | (Inr _, value', reader2) \<Rightarrow> ReadEntries_loop N value' count reader2 (i + 1)))
      else (Inr (), value, reader))"
  by pat_completeness auto
termination
proof (relation "measure (\<lambda>(N, value, count, reader, i). unat count - unat i)")
  show "wf (measure (\<lambda>(N, value, count, reader, i). unat count - unat i))"
    by simp
next
  fix count i :: u64
  fix N :: nop and "value" value' :: "'v Entry list" and reader reader2 :: Reader
  assume "i < count"
  then have "unat count - unat (i + 1) < unat count - unat i"
    by unat_arith
  then show "((N, value', count, reader2, i + 1), (N, value, count, reader, i))
      \<in> measure (\<lambda>(N, value, count, reader, i). unat count - unat i)"
    by simp
qed

declare ReadEntries_loop.simps [simp del]

definition ReadEntries ::
  "nop \<Rightarrow> 'v Entry list \<Rightarrow> u64 \<Rightarrow> Reader \<Rightarrow> unit Status \<times> 'v Entry list \<times> Reader" where
  "ReadEntries N value count reader = ReadEntries_loop N value count reader 0"

definition Table_ReadPayload ::
  "nop \<Rightarrow> byte \<Rightarrow> 'v Table \<Rightarrow> Reader \<Rightarrow> unit Status \<times> 'v Table \<times> Reader" where
  "Table_ReadPayload N prefix value reader =
     (let value0 = value\<lparr>Entries := ClearEntries (Entries value) (length (Entries value))\<rparr> in
      case Read (Encoding_uint64 N) 0 reader of
        (Inl e, hash, reader1) \<Rightarrow> (Inl e, value0, reader1)
      | (Inr _, hash, reader1) \<Rightarrow>
          if hash \<noteq> Hash value then (Inl (ErrorStatus (EPROTO N)), value0, reader1)
          else
            (case Read (Encoding_uint64 N) 0 reader1 of
               (Inl e, count, reader2) \<Rightarrow> (Inl e, value0, reader2)
             | (Inr _, count, reader2) \<Rightarrow>
                 (case ReadEntries N (Entries value0) count reader2 of
                    (status, entries, reader3) \<Rightarrow>
                      (status, value0\<lparr>Entries := entries\<rparr>, reader3))))"

text \<open>
  Modelled from the spec: \<^verbatim>\<open>EncodingIO<Table>::Write\<close> and \<^verbatim>\<open>EncodingIO<Table>::Read\<close>
  (nop/base/encoding.h is not among the sources), the entry points that put the table
  marker in front of the payload (section 4.3, step 1) and that fail on a marker other than
  the table marker (section 7) before the payload is read.
\<close>

definition Table_Write :: "nop \<Rightarrow> 'v Table \<Rightarrow> Writer \<Rightarrow> unit Status \<times> Writer" where
  "Table_Write N value writer =
     (let prefix = Table_Prefix N value in
      case Writer_Write prefix writer of
        (Inl e, writer1) \<Rightarrow> (Inl e, writer1)
      | (Inr _, writer1) \<Rightarrow> Table_WritePayload N prefix value writer1)"

definition Table_Read :: "nop \<Rightarrow> 'v Table \<Rightarrow> Reader \<Rightarrow> unit Status \<times> 'v Table \<times> Reader" where
  "Table_Read N value reader =
     (case Reader_Read reader of
        (Inl e, reader1) \<Rightarrow> (Inl e, value, reader1)
      | (Inr prefix, reader1) \<Rightarrow>
          if \<not> Table_Match N prefix then (Inl UnexpectedEncodingType, value, reader1)
          else Table_ReadPayload N prefix value reader1)"

subsection \<open>The statements of the specification\<close>

text \<open>
  The bytes that an encoder emits for a value: what \<^verbatim>\<open>Encoding<std::uint64_t>::Write\<close>
  appends to an empty writer, and what \<^verbatim>\<open>Encoding<T>::Write\<close> appends through a bounded
  writer whose limit is \<^verbatim>\<open>Encoding<T>::Size\<close> of the value.
\<close>

definition wire_uint64 :: "nop \<Rightarrow> u64 \<Rightarrow> byte list" where
  "wire_uint64 N v = snd (Write (Encoding_uint64 N) v [])"

definition wire_T :: "('v, BoundedReader, BoundedWriter) Encoding \<Rightarrow> 'v \<Rightarrow> byte list" where
  "wire_T T v = bw_writer (snd (Write T v (BoundedWriter [] (Size T v) 0)))"

text \<open>
  The contract of the integer encoding (section 6): writing appends the encoding of the
  value to any writer and succeeds; reading consumes exactly that encoding and returns the
  value; \<^verbatim>\<open>Size\<close> is the number of bytes written.
\<close>

definition uint64_writes :: "nop \<Rightarrow> bool" where
  "uint64_writes N \<longleftrightarrow>
     (\<forall>v writer. Write (Encoding_uint64 N) v writer = (Inr (), writer @ wire_uint64 N v))"

definition uint64_reads :: "nop \<Rightarrow> bool" where
  "uint64_reads N \<longleftrightarrow>
     (\<forall>v x rest. Read (Encoding_uint64 N) x (wire_uint64 N v @ rest) = (Inr (), v, rest))"

definition uint64_sized :: "nop \<Rightarrow> bool" where
  "uint64_sized N \<longleftrightarrow> (\<forall>v. length (wire_uint64 N v) = unat (Size (Encoding_uint64 N) v))"

text \<open>
  The contract of a value encoding inside the bounded window (sections 4.1 and 6): writing
  appends the encoding of the value, which is no longer than \<^verbatim>\<open>Size\<close> says, and counts
  its bytes; reading consumes exactly that encoding, counts its bytes and returns the value.
\<close>

definition T_writes :: "('v, BoundedReader, BoundedWriter) Encoding \<Rightarrow> bool" where
  "T_writes T \<longleftrightarrow>
     (\<forall>v writer.
        length (wire_T T v) \<le> unat (Size T v) \<and>
        Write T v (BoundedWriter writer (Size T v) 0) =
          (Inr (), BoundedWriter (writer @ wire_T T v) (Size T v) (of_nat (length (wire_T T v)))))"


fun Entry_writes :: "'v Entry \<Rightarrow> bool" where
  "Entry_writes (ActiveEntry ident T t0 opt) = T_writes T"
| "Entry_writes (DeletedEntry ident) = True"


text \<open>
  Section 4.2 in its own words: the contribution of a slot to the size of the table, and
  the size of the table.
\<close>

fun slot_contribution :: "nop \<Rightarrow> 'v Entry \<Rightarrow> size_t" where
  "slot_contribution N (DeletedEntry ident) = 0"
| "slot_contribution N (ActiveEntry ident T t0 None) = 0"
| "slot_contribution N (ActiveEntry ident T t0 (Some v)) =
     Size (Encoding_uint64 N) ident + Size T v"

definition present_count :: "'v Entry list \<Rightarrow> nat" where
  "present_count entries = length (filter Entry_bool entries)"

definition table_size :: "nop \<Rightarrow> 'v Table \<Rightarrow> size_t" where
  "table_size N t =
     1 + Size (Encoding_uint64 N) (Hash t)
       + Size (Encoding_uint64 N) (of_nat (present_count (Entries t)))
       + sum_list (map (slot_contribution N) (Entries t))"

text \<open>
  Sections 4.3 and 6 in their own words: the bytes of one slot and the bytes of a table.
\<close>

fun entry_wire :: "nop \<Rightarrow> 'v Entry \<Rightarrow> byte list" where
  "entry_wire N (DeletedEntry ident) = []"
| "entry_wire N (ActiveEntry ident T t0 None) = []"
| "entry_wire N (ActiveEntry ident T t0 (Some v)) =
     wire_uint64 N ident @ [EncodingByte_Binary N] @ wire_uint64 N (Size T v) @
     wire_T T v @ replicate (unat (Size T v) - length (wire_T T v)) 0"

definition payload_wire :: "nop \<Rightarrow> 'v Table \<Rightarrow> byte list" where
  "payload_wire N t =
     wire_uint64 N (Hash t) @ wire_uint64 N (of_nat (present_count (Entries t))) @
     concat (map (entry_wire N) (Entries t))"

definition table_wire :: "nop \<Rightarrow> 'v Table \<Rightarrow> byte list" where
  "table_wire N t = [EncodingByte_Table N] @ payload_wire N t"

text \<open>
  The bytes that an entry on the wire carries beyond its id and its value region: the
  binary-region marker and the size field.
\<close>

fun binary_overhead :: "nop \<Rightarrow> 'v Entry \<Rightarrow> nat" where
  "binary_overhead N (DeletedEntry ident) = 0"
| "binary_overhead N (ActiveEntry ident T t0 None) = 0"
| "binary_overhead N (ActiveEntry ident T t0 (Some v)) =
     1 + unat (Size (Encoding_uint64 N) (Size T v))"

text \<open>
  The bytes of an entry on the wire that the size of the table counts: the id and the
  value region.
\<close>

fun slot_bytes :: "nop \<Rightarrow> 'v Entry \<Rightarrow> nat" where
  "slot_bytes N (DeletedEntry ident) = 0"
| "slot_bytes N (ActiveEntry ident T t0 None) = 0"
| "slot_bytes N (ActiveEntry ident T t0 (Some v)) =
     unat (Size (Encoding_uint64 N) ident) + unat (Size T v)"

text \<open>
  The slots that a decode populates, in the order in which it does: the positions of the
  entries into which \<^verbatim>\<open>ReadEntry\<close> has put a payload by the time \<^verbatim>\<open>ReadPayload\<close>
  returns, with success or at the point of failure.

  \<^verbatim>\<open>ReadEntry\<close> populates an active entry where it assigns \<^verbatim>\<open>*entry = T{}\<close>: the entry
  is empty, the marker has been read and is the binary-region marker, and the size has been
  read. What follows, the decoding of the value and the padding, works on the populated
  entry and may fail.
\<close>

fun ReadEntry_constructs :: "nop \<Rightarrow> 'v Entry \<Rightarrow> Reader \<Rightarrow> bool" where
  "ReadEntry_constructs N (ActiveEntry ident T t0 opt) reader =
     (Entry_empty (ActiveEntry ident T t0 opt) \<and>
      (case Reader_Read reader of
         (Inl e, reader1) \<Rightarrow> False
       | (Inr prefix, reader1) \<Rightarrow>
           prefix = EncodingByte_Binary N \<and>
           (case Read (Encoding_uint64 N) 0 reader1 of
              (Inl e, sz, reader2) \<Rightarrow> False
            | (Inr _, sz, reader2) \<Rightarrow> True)))"
| "ReadEntry_constructs N (DeletedEntry ident) reader = False"

text \<open>
  The position of the entry that \<^verbatim>\<open>ReadEntryForId(value, id, reader, Index<index>)\<close> hands
  to \<^verbatim>\<open>ReadEntry\<close>: the scan from \<^verbatim>\<open>PointerAt<index - 1>\<close> down, \<open>None\<close> where it ends
  in \<^verbatim>\<open>SkipEntry\<close>.
\<close>

fun PointerFor :: "'v Entry list \<Rightarrow> u64 \<Rightarrow> nat \<Rightarrow> nat option" where
  "PointerFor value ident 0 = None"
| "PointerFor value ident (Suc index) =
     (if Entry_Id (value ! index) = ident then Some index
      else PointerFor value ident index)"

definition ReadEntryForId_populated :: "nop \<Rightarrow> 'v Entry list \<Rightarrow> u64 \<Rightarrow> Reader \<Rightarrow> nat list" where
  "ReadEntryForId_populated N value ident reader =
     (case PointerFor value ident (length value) of
        None \<Rightarrow> []
      | Some j \<Rightarrow> if ReadEntry_constructs N (value ! j) reader then [j] else [])"

text \<open>
  The loop of \<^verbatim>\<open>ReadEntries\<close> once more, collecting the populated slots instead of the
  table: it stops where the loop stops, after the entry that fails.
\<close>

function ReadEntries_populated ::
  "nop \<Rightarrow> 'v Entry list \<Rightarrow> u64 \<Rightarrow> Reader \<Rightarrow> u64 \<Rightarrow> nat list" where
  "ReadEntries_populated N value count reader i =
     (if i < count then
        (case Read (Encoding_uint64 N) 0 reader of
           (Inl e, ident, reader1) \<Rightarrow> []
         | (Inr _, ident, reader1) \<Rightarrow>
             ReadEntryForId_populated N value ident reader1 @
             (case ReadEntryForId N value ident reader1 (length value) of
                (Inl e, value', reader2) \<Rightarrow> []
              | (Inr _, value', reader2) \<Rightarrow>
                  ReadEntries_populated N value' count reader2 (i + 1)))
      else [])"
  by pat_completeness auto
termination
proof (relation "measure (\<lambda>(N, value, count, reader, i). unat count - unat i)")
  show "wf (measure (\<lambda>(N, value, count, reader, i). unat count - unat i))"
    by simp
next
  fix count i :: u64
  fix N :: nop and "value" value' :: "'v Entry list" and reader reader2 :: Reader
  assume "i < count"
  then have "unat count - unat (i + 1) < unat count - unat i"
    by unat_arith
  then show "((N, value', count, reader2, i + 1), (N, value, count, reader, i))
      \<in> measure (\<lambda>(N, value, count, reader, i). unat count - unat i)"
    by simp
qed

declare ReadEntries_populated.simps [simp del]

definition ReadPayload_populated :: "nop \<Rightarrow> 'v Table \<Rightarrow> Reader \<Rightarrow> nat list" where
  "ReadPayload_populated N value reader =
     (case Read (Encoding_uint64 N) 0 reader of
        (Inl e, hash, reader1) \<Rightarrow> []
      | (Inr _, hash, reader1) \<Rightarrow>
          if hash \<noteq> Hash value then []
          else
            (case Read (Encoding_uint64 N) 0 reader1 of
               (Inl e, count, reader2) \<Rightarrow> []
             | (Inr _, count, reader2) \<Rightarrow>
                 ReadEntries_populated N
                   (ClearEntries (Entries value) (length (Entries value))) count reader2 0))"

subsection \<open>An instance: fixed-width integers and a one-byte value\<close>

text \<open>
  An integer encoding of fixed width (section 6 calls the fingerprint, the count, the id
  and the size fixed-width 64-bit fields): eight bytes, most significant first.
\<close>

definition to_bytes :: "u64 \<Rightarrow> byte list" where
  "to_bytes v =
     map (\<lambda>k. ucast (take_bit 8 (drop_bit (8 * k) v))) [7, 6, 5, 4, 3, 2, 1, 0]"

definition from_bytes :: "byte list \<Rightarrow> u64" where
  "from_bytes bs = foldl (\<lambda>acc b. push_bit 8 acc OR ucast b) 0 bs"

definition Fixed64 :: "(u64, Reader, Writer) Encoding" where
  "Fixed64 =
     \<lparr>Size = (\<lambda>v. 8),
      Write = (\<lambda>v writer. (Inr (), writer @ to_bytes v)),
      Read = (\<lambda>x reader.
        if 8 \<le> length reader then (Inr (), from_bytes (take 8 reader), drop 8 reader)
        else (Inl StreamError, x, reader))\<rparr>"

text \<open>
  A value encoding that writes one byte through the bounded window and declares two, so
  that one byte of every region is padding.
\<close>

definition Padded_byte :: "(byte, BoundedReader, BoundedWriter) Encoding" where
  "Padded_byte =
     \<lparr>Size = (\<lambda>v. 2),
      Write = (\<lambda>v bounded_writer. BoundedWriter_Write v bounded_writer),
      Read = (\<lambda>x bounded_reader.
        case BoundedReader_Read bounded_reader of
          (Inl e, bounded_reader') \<Rightarrow> (Inl e, x, bounded_reader')
        | (Inr b, bounded_reader') \<Rightarrow> (Inr (), b, bounded_reader'))\<rparr>"

text \<open>
  The environment of a Linux build: \<^verbatim>\<open>EPROTO\<close> is 71, and the prefix bytes are those of
  libnop's \<^verbatim>\<open>EncodingByte\<close>.
\<close>

definition Linux :: nop where
  "Linux = \<lparr>EPROTO = 71, EncodingByte_Table = 0xb5, EncodingByte_Binary = 0xbc,
            Encoding_uint64 = Fixed64\<rparr>"

text \<open>
  A table with the entries 0 and 2 active and the entry 1 deleted; its values are given by
  what the two active entries hold.
\<close>

definition Example :: "byte option \<Rightarrow> byte option \<Rightarrow> byte Table" where
  "Example a c =
     \<lparr>Hash = 0x0102030405060708,
      Entries = [ActiveEntry 0 Padded_byte 0 a, DeletedEntry 1, ActiveEntry 2 Padded_byte 0 c]\<rparr>"

section \<open>Proofs\<close>

subsection \<open>Entries\<close>


lemma Entry_bool_simps [simp]:
  "Entry_bool (ActiveEntry ident T t0 (Some v))"
  "\<not> Entry_bool (ActiveEntry ident T t0 None)"
  "\<not> Entry_bool (DeletedEntry ident)"
  by (simp_all add: Entry_bool_def)

lemma Entry_Id_clear [simp]: "Entry_Id (Entry_clear e) = Entry_Id e"
  by (cases e) simp_all

lemma Entry_clear_idem [simp]: "Entry_clear (Entry_clear e) = Entry_clear e"
  by (cases e) simp_all


lemma Entry_empty_clear [simp]: "Entry_empty (Entry_clear e)"
  by (cases e) simp_all

subsection \<open>The recursions over the index are recursions over the list of entries\<close>

lemma ActiveEntryCount_take:
  "n \<le> length value \<Longrightarrow> ActiveEntryCount value n = of_nat (present_count (take n value))"
  by (induction n) (simp_all add: present_count_def take_Suc_conv_app_nth)

lemma ActiveEntryCount_eq:
  "ActiveEntryCount value (length value) = of_nat (present_count value)"
  by (simp add: ActiveEntryCount_take)

lemma Size_Entry_eq: "Size_Entry N e = slot_contribution N e"
  by (cases "(N, e)" rule: slot_contribution.cases) simp_all

lemma Size_Index_take:
  "n \<le> length value \<Longrightarrow>
   Size_Index N value n = sum_list (map (slot_contribution N) (take n value))"
  by (induction n) (simp_all add: take_Suc_conv_app_nth Size_Entry_eq)

lemma ClearEntries_length [simp]: "length (ClearEntries value n) = length value"
  by (induction n) (simp_all add: Let_def)

lemma ClearEntries_take:
  "n \<le> length value \<Longrightarrow>
   ClearEntries value n = map Entry_clear (take n value) @ drop n value"
proof (induction n)
  case 0
  then show ?case by simp
next
  case (Suc n)
  then have n: "n < length value" by simp
  have "(map Entry_clear (take n value) @ drop n value)
          [n := Entry_clear ((map Entry_clear (take n value) @ drop n value) ! n)] =
        map Entry_clear (take (Suc n) value) @ drop (Suc n) value"
    using n by (simp add: take_Suc_conv_app_nth list_update_append nth_append
        Cons_nth_drop_Suc [symmetric])
  with Suc n show ?case by (simp add: Let_def)
qed

lemma ClearEntries_eq: "ClearEntries value (length value) = map Entry_clear value"
  by (simp add: ClearEntries_take)

subsection \<open>Writing\<close>

lemma unat_sub_of_nat:
  fixes sz :: size_t
  assumes "len \<le> unat sz"
  shows "unat (sz - of_nat len) = unat sz - len"
proof -
  have u: "unat (of_nat len :: size_t) = len"
    using assms by (rule le_unat_uoi)
  then have "(of_nat len :: size_t) \<le> sz"
    using assms by (simp add: word_le_nat_alt)
  then show ?thesis
    using u by (simp add: unat_sub)
qed

lemma WriteEntry_wire:
  assumes "uint64_writes N" and "Entry_writes e"
  shows "WriteEntry N e writer = (Inr (), writer @ entry_wire N e)"
proof (cases e)
  case (ActiveEntry ident T t0 opt)
  show ?thesis
  proof (cases opt)
    case None
    with ActiveEntry show ?thesis by simp
  next
    case (Some v)
    have T: "T_writes T"
      using assms(2) ActiveEntry by simp
    have len: "length (wire_T T v) \<le> unat (Size T v)"
      using T by (simp add: T_writes_def)
    have wr: "Write T v (BoundedWriter w (Size T v) 0) =
        (Inr (), BoundedWriter (w @ wire_T T v) (Size T v) (of_nat (length (wire_T T v))))"
      for w
      using T by (simp add: T_writes_def)
    have u: "Write (Encoding_uint64 N) x w = (Inr (), w @ wire_uint64 N x)" for x w
      using assms(1) by (simp add: uint64_writes_def)
    show ?thesis
      using ActiveEntry Some
      by (simp add: Let_def u wr Writer_Write_def Writer_Skip_def unat_sub_of_nat [OF len])
  qed
next
  case (DeletedEntry ident)
  then show ?thesis by simp
qed

lemma WriteEntries_take:
  assumes "uint64_writes N" and "\<forall>e\<in>set value. Entry_writes e" and "n \<le> length value"
  shows "WriteEntries N value writer n =
    (Inr (), writer @ concat (map (entry_wire N) (take n value)))"
  using assms(3)
proof (induction n)
  case 0
  then show ?case by simp
next
  case (Suc n)
  then have "Entry_writes (value ! n)"
    using assms(2) by simp
  with Suc assms(1) show ?case
    by (simp add: take_Suc_conv_app_nth WriteEntry_wire)
qed

lemma Table_WritePayload_wire:
  assumes "uint64_writes N" and "\<forall>e\<in>set (Entries t). Entry_writes e"
  shows "Table_WritePayload N prefix t writer = (Inr (), writer @ payload_wire N t)"
proof -
  have u: "Write (Encoding_uint64 N) x w = (Inr (), w @ wire_uint64 N x)" for x w
    using assms(1) by (simp add: uint64_writes_def)
  show ?thesis
    by (simp add: Table_WritePayload_def u ActiveEntryCount_eq payload_wire_def
        WriteEntries_take [OF assms(1) assms(2)])
qed

lemma Table_Write_wire:
  assumes "uint64_writes N" and "\<forall>e\<in>set (Entries t). Entry_writes e"
  shows "Table_Write N t writer = (Inr (), writer @ table_wire N t)"
  by (simp add: Table_Write_def Writer_Write_def Table_Prefix_def table_wire_def
      Table_WritePayload_wire [OF assms])

lemma Table_Size_spec: "Table_Size N t = table_size N t"
  by (simp add: Table_Size_def table_size_def BaseEncodingSize_def ActiveEntryCount_eq
      Size_Index_take)

subsection \<open>The instance meets the contracts\<close>

lemma from_bytes_to_bytes: "from_bytes (to_bytes v) = v"
proof (rule bit_word_eqI)
  fix n :: nat
  assume "n < LENGTH(64)"
  then have "n < 8 \<or> (8 \<le> n \<and> n < 16) \<or> (16 \<le> n \<and> n < 24) \<or> (24 \<le> n \<and> n < 32) \<or>
     (32 \<le> n \<and> n < 40) \<or> (40 \<le> n \<and> n < 48) \<or> (48 \<le> n \<and> n < 56) \<or> (56 \<le> n \<and> n < 64)"
    by simp linarith
  then show "bit (from_bytes (to_bytes v)) n = bit v n"
    unfolding to_bytes_def from_bytes_def
    by (elim disjE) (auto simp add: bit_simps cong: conj_cong)
qed

lemma length_to_bytes [simp]: "length (to_bytes v) = 8"
  by (simp add: to_bytes_def)

lemma Linux_simps [simp]:
  "EPROTO Linux = 71" "EncodingByte_Table Linux = 0xb5" "EncodingByte_Binary Linux = 0xbc"
  "Size (Encoding_uint64 Linux) v = 8"
  by (simp_all add: Linux_def Fixed64_def)

lemma Size_Padded_byte [simp]: "Size Padded_byte v = 2"
  by (simp add: Padded_byte_def)

lemma wire_uint64_Linux [simp]: "wire_uint64 Linux v = to_bytes v"
  by (simp add: wire_uint64_def Linux_def Fixed64_def)

lemma Linux_uint64_writes: "uint64_writes Linux"
  unfolding uint64_writes_def by (simp add: Linux_def Fixed64_def wire_uint64_def)

lemma Linux_uint64_reads: "uint64_reads Linux"
  unfolding uint64_reads_def wire_uint64_Linux
  by (simp add: Linux_def Fixed64_def from_bytes_to_bytes)

lemma Linux_uint64_sized: "uint64_sized Linux"
  unfolding uint64_sized_def wire_uint64_Linux by (simp add: Linux_def Fixed64_def)

lemma wire_T_Padded_byte [simp]: "wire_T Padded_byte v = [v]"
  by (simp add: wire_T_def Padded_byte_def Writer_Write_def)

lemma Padded_byte_writes: "T_writes Padded_byte"
  unfolding T_writes_def wire_T_Padded_byte
  by (simp add: Padded_byte_def Writer_Write_def)


lemma Example_writes: "\<forall>e\<in>set (Entries (Example a c)). Entry_writes e"
  by (simp add: Example_def Padded_byte_writes)


lemma Example_unique: "EntryList_unique (Entries (Example a c))"
  by (simp add: Example_def EntryList_unique_def)

subsection \<open>The size of a table\<close>

text \<open>
  C5. The size that \<^verbatim>\<open>Encoding<Table>::Size\<close> computes is the size of the table marker plus
  the size of the fingerprint plus the size of the count of present active entries plus the
  sum over the slots of the slot contribution, which is 0 for a deleted slot and for an empty
  active slot and the size of the id plus the size of the value for a present active slot.
\<close>

theorem C5_table_size:
  "Table_Size N t =
     BaseEncodingSize (EncodingByte_Table N)
     + Size (Encoding_uint64 N) (Hash t)
     + Size (Encoding_uint64 N) (of_nat (length (filter Entry_bool (Entries t))))
     + sum_list (map (slot_contribution N) (Entries t))
   \<and> slot_contribution N (DeletedEntry ident) = 0
   \<and> slot_contribution N (ActiveEntry ident T t0 None) = 0
   \<and> slot_contribution N (ActiveEntry ident T t0 (Some v)) =
       Size (Encoding_uint64 N) ident + Size T v"
  by (simp add: Table_Size_spec table_size_def BaseEncodingSize_def present_count_def)

subsection \<open>The bytes of a table\<close>

text \<open>
  C6. With an integer encoding and value encodings that meet their contracts, writing a
  table appends the table marker and the payload of \<^verbatim>\<open>WritePayload\<close>: the fingerprint, the
  count of present active entries and,
  slot by slot in declaration order, nothing for a deleted or an empty slot and, for a
  present active slot, the id, the binary-region marker, the declared size
  \<^verbatim>\<open>Encoding<T>::Size\<close> of the value, and a region of exactly that many bytes: the encoding
  of the value and zero padding.
\<close>

theorem C6_table_write:
  assumes "uint64_writes N" and "\<forall>e\<in>set (Entries t). Entry_writes e"
  shows "Table_Write N t writer =
      (Inr (), writer @ [EncodingByte_Table N] @ wire_uint64 N (Hash t) @
         wire_uint64 N (of_nat (length (filter Entry_bool (Entries t)))) @
         concat (map (entry_wire N) (Entries t)))
    \<and> Table_WritePayload N prefix t writer =
      (Inr (), writer @ wire_uint64 N (Hash t) @
         wire_uint64 N (of_nat (length (filter Entry_bool (Entries t)))) @
         concat (map (entry_wire N) (Entries t)))
    \<and> (\<forall>e\<in>set (Entries t). \<not> Entry_bool e \<longrightarrow> entry_wire N e = [])
    \<and> (\<forall>ident T t0 v. ActiveEntry ident T t0 (Some v) \<in> set (Entries t) \<longrightarrow>
          entry_wire N (ActiveEntry ident T t0 (Some v)) =
            wire_uint64 N ident @ [EncodingByte_Binary N] @ wire_uint64 N (Size T v) @
            wire_T T v @ replicate (unat (Size T v) - length (wire_T T v)) 0
          \<and> length (wire_T T v @ replicate (unat (Size T v) - length (wire_T T v)) 0) =
            unat (Size T v))"
proof (intro conjI ballI allI impI)
  show "Table_Write N t writer =
      (Inr (), writer @ [EncodingByte_Table N] @ wire_uint64 N (Hash t) @
         wire_uint64 N (of_nat (length (filter Entry_bool (Entries t)))) @
         concat (map (entry_wire N) (Entries t)))"
    by (simp add: Table_Write_wire [OF assms] table_wire_def payload_wire_def
        present_count_def)
next
  show "Table_WritePayload N prefix t writer =
      (Inr (), writer @ wire_uint64 N (Hash t) @
         wire_uint64 N (of_nat (length (filter Entry_bool (Entries t)))) @
         concat (map (entry_wire N) (Entries t)))"
    by (simp add: Table_WritePayload_wire [OF assms] payload_wire_def present_count_def)
next
  fix e :: "'a Entry"
  assume "\<not> Entry_bool e"
  then show "entry_wire N e = []"
    by (cases "(N, e)" rule: entry_wire.cases) simp_all
next
  fix ident T t0 and v :: 'a
  show "entry_wire N (ActiveEntry ident T t0 (Some v)) =
      wire_uint64 N ident @ [EncodingByte_Binary N] @ wire_uint64 N (Size T v) @
      wire_T T v @ replicate (unat (Size T v) - length (wire_T T v)) 0"
    by simp
next
  fix ident T t0 and v :: 'a
  assume "ActiveEntry ident T t0 (Some v) \<in> set (Entries t)"
  then have "T_writes T"
    using assms(2) by fastforce
  then have "length (wire_T T v) \<le> unat (Size T v)"
    by (simp add: T_writes_def)
  then show "length (wire_T T v @ replicate (unat (Size T v) - length (wire_T T v)) 0) =
      unat (Size T v)"
    by simp
qed

theorem C6_table_write_witness:
  "Table_Write Linux (Example (Some 7) None) [] =
     (Inr (), [0xb5, 1, 2, 3, 4, 5, 6, 7, 8, 0, 0, 0, 0, 0, 0, 0, 1,
               0, 0, 0, 0, 0, 0, 0, 0, 0xbc, 0, 0, 0, 0, 0, 0, 0, 2, 7, 0])"
  using C6_table_write [OF Linux_uint64_writes Example_writes, of "Some 7" None "[]"]
  by (simp add: Example_def to_bytes_def)

subsection \<open>The bytes written against the size computed\<close>

lemma length_entry_wire:
  assumes "uint64_sized N" and "Entry_writes e"
  shows "length (entry_wire N e) = slot_bytes N e + binary_overhead N e"
proof (cases e)
  case (ActiveEntry ident T t0 opt)
  show ?thesis
  proof (cases opt)
    case None
    with ActiveEntry show ?thesis by simp
  next
    case (Some v)
    have "length (wire_T T v) \<le> unat (Size T v)"
      using assms(2) ActiveEntry by (simp add: T_writes_def)
    moreover have "length (wire_uint64 N x) = unat (Size (Encoding_uint64 N) x)" for x
      using assms(1) by (simp add: uint64_sized_def)
    ultimately show ?thesis
      using ActiveEntry Some by simp
  qed
next
  case (DeletedEntry ident)
  then show ?thesis by simp
qed

lemma length_concat_entry_wire:
  assumes "uint64_sized N" and "\<forall>e\<in>set es. Entry_writes e"
  shows "length (concat (map (entry_wire N) es)) =
    sum_list (map (slot_bytes N) es) + sum_list (map (binary_overhead N) es)"
  using assms(2) by (induction es) (simp_all add: length_entry_wire [OF assms(1)])

lemma of_nat_slot_bytes: "of_nat (slot_bytes N e) = slot_contribution N e"
  by (cases "(N, e)" rule: slot_bytes.cases) simp_all

lemma of_nat_sum_slot_bytes:
  "of_nat (sum_list (map (slot_bytes N) es)) = sum_list (map (slot_contribution N) es)"
  by (induction es) (simp_all add: of_nat_slot_bytes)

lemma binary_overhead_zero_iff: "binary_overhead N e = 0 \<longleftrightarrow> \<not> Entry_bool e"
  by (cases "(N, e)" rule: binary_overhead.cases) simp_all

lemma sum_binary_overhead_zero_iff:
  "sum_list (map (binary_overhead N) es) = 0 \<longleftrightarrow> filter Entry_bool es = []"
  by (induction es) (simp_all add: binary_overhead_zero_iff)

lemma length_table_wire:
  assumes "uint64_sized N" and "\<forall>e\<in>set (Entries t). Entry_writes e"
  shows "length (table_wire N t) =
    1 + unat (Size (Encoding_uint64 N) (Hash t))
      + unat (Size (Encoding_uint64 N) (of_nat (present_count (Entries t))))
      + sum_list (map (slot_bytes N) (Entries t))
      + sum_list (map (binary_overhead N) (Entries t))"
proof -
  have "length (wire_uint64 N x) = unat (Size (Encoding_uint64 N) x)" for x
    using assms(1) by (simp add: uint64_sized_def)
  then show ?thesis
    by (simp add: table_wire_def payload_wire_def length_concat_entry_wire [OF assms])
qed

lemma table_size_of_nat:
  "table_size N t =
    of_nat (1 + unat (Size (Encoding_uint64 N) (Hash t))
      + unat (Size (Encoding_uint64 N) (of_nat (present_count (Entries t))))
      + sum_list (map (slot_bytes N) (Entries t)))"
  by (simp add: table_size_def of_nat_sum_slot_bytes)

lemma length_table_wire_size:
  assumes "uint64_sized N" and "\<forall>e\<in>set (Entries t). Entry_writes e"
    and "length (table_wire N t) < 2 ^ 64"
  shows "length (table_wire N t) =
    unat (Table_Size N t) + sum_list (map (binary_overhead N) (Entries t))"
proof -
  define s where "s = 1 + unat (Size (Encoding_uint64 N) (Hash t))
      + unat (Size (Encoding_uint64 N) (of_nat (present_count (Entries t))))
      + sum_list (map (slot_bytes N) (Entries t))"
  have len: "length (table_wire N t) = s + sum_list (map (binary_overhead N) (Entries t))"
    by (simp add: length_table_wire [OF assms(1,2)] s_def)
  then have "s < 2 ^ 64"
    using assms(3) by simp
  then have "unat (of_nat s :: size_t) = s"
    by (simp add: unat_of_nat)
  moreover have "Table_Size N t = of_nat s"
    unfolding Table_Size_spec table_size_of_nat s_def ..
  ultimately show ?thesis
    using len by simp
qed

text \<open>
  C10. With encodings that meet their contracts and an output whose length fits
  \<^verbatim>\<open>std::size_t\<close>, the bytes that writing a table emits (the marker and the payload)
  exceed what \<^verbatim>\<open>Encoding<Table>::Size\<close> returns by, for each present active entry, the
  binary-region marker byte and the encoded width of the size field; the two are equal only
  when no active entry is present.
\<close>

theorem C10_written_exceeds_size:
  assumes "uint64_writes N" and "uint64_sized N"
    and "\<forall>e\<in>set (Entries t). Entry_writes e"
    and "length (snd (Table_Write N t [])) < 2 ^ 64"
  shows "length (snd (Table_Write N t [])) =
      unat (Table_Size N t) + sum_list (map (binary_overhead N) (Entries t))
    \<and> binary_overhead N (DeletedEntry ident) = 0
    \<and> binary_overhead N (ActiveEntry ident T t0 None) = 0
    \<and> binary_overhead N (ActiveEntry ident T t0 (Some v)) =
        1 + unat (Size (Encoding_uint64 N) (Size T v))
    \<and> (length (snd (Table_Write N t [])) = unat (Table_Size N t)
         \<longleftrightarrow> filter Entry_bool (Entries t) = [])"
proof -
  have w: "snd (Table_Write N t []) = table_wire N t"
    by (simp add: Table_Write_wire [OF assms(1,3)])
  have len: "length (table_wire N t) =
      unat (Table_Size N t) + sum_list (map (binary_overhead N) (Entries t))"
    using assms(4) unfolding w by (rule length_table_wire_size [OF assms(2,3)])
  have "sum_list (map (binary_overhead N) (Entries t)) = 0
      \<longleftrightarrow> filter Entry_bool (Entries t) = []"
    by (rule sum_binary_overhead_zero_iff)
  with len show ?thesis
    unfolding w by simp
qed

theorem C10_written_exceeds_size_witness:
  "length (snd (Table_Write Linux (Example (Some 7) (Some 9)) [])) = 55
   \<and> unat (Table_Size Linux (Example (Some 7) (Some 9))) = 37
   \<and> sum_list (map (binary_overhead Linux) (Entries (Example (Some 7) (Some 9)))) = 18"
proof -
  have l: "length (snd (Table_Write Linux (Example (Some 7) (Some 9)) [])) = 55"
    unfolding Table_Write_wire [OF Linux_uint64_writes Example_writes]
    by (simp add: table_wire_def payload_wire_def Example_def)
  have o: "sum_list (map (binary_overhead Linux) (Entries (Example (Some 7) (Some 9)))) = 18"
    by (simp add: Example_def)
  from l have "length (snd (Table_Write Linux (Example (Some 7) (Some 9)) [])) < 2 ^ 64"
    by simp
  from C10_written_exceeds_size [OF Linux_uint64_writes Linux_uint64_sized Example_writes this]
  show ?thesis
    using l o by simp
qed

subsection \<open>Reading one entry\<close>

lemma SkipEntry_wire:
  assumes "uint64_reads N" and "length blob = unat sz"
  shows "SkipEntry N ([EncodingByte_Binary N] @ wire_uint64 N sz @ blob @ rest) = (Inr (), rest)"
proof -
  have "Read (Encoding_uint64 N) 0 (wire_uint64 N sz @ blob @ rest) = (Inr (), sz, blob @ rest)"
    using assms(1) by (simp add: uint64_reads_def)
  then show ?thesis
    using assms(2) by (simp add: SkipEntry_def Reader_Skip_def)
qed


subsection \<open>Finding the entry for an id\<close>

lemma ReadEntryForId_unknown:
  assumes "n \<le> length value" and "ident \<notin> Entry_Id ` set (take n value)"
  shows "ReadEntryForId N value ident reader n =
    (case SkipEntry N reader of (status, reader') \<Rightarrow> (status, value, reader'))"
  using assms by (induction n) (auto simp add: take_Suc_conv_app_nth)

lemma ReadEntryForId_found:
  assumes "n \<le> length value" and "j < n" and "Entry_Id (value ! j) = ident"
    and "\<forall>k. j < k \<and> k < n \<longrightarrow> Entry_Id (value ! k) \<noteq> ident"
  shows "ReadEntryForId N value ident reader n =
    (case ReadEntry N (value ! j) reader of
       (status, entry, reader') \<Rightarrow> (status, value[j := entry], reader'))"
  using assms
proof (induction n)
  case 0
  then show ?case by simp
next
  case (Suc n)
  show ?case
  proof (cases "j = n")
    case True
    with Suc.prems show ?thesis by simp
  next
    case False
    with Suc.prems have "j < n" and "Entry_Id (value ! n) \<noteq> ident"
      by simp_all
    with Suc show ?thesis by simp
  qed
qed

lemma ReadEntryForId_unique:
  assumes "EntryList_unique value" and "j < length value"
  shows "ReadEntryForId N value (Entry_Id (value ! j)) reader (length value) =
    (case ReadEntry N (value ! j) reader of
       (status, entry, reader') \<Rightarrow> (status, value[j := entry], reader'))"
proof (rule ReadEntryForId_found)
  show "\<forall>k. j < k \<and> k < length value \<longrightarrow> Entry_Id (value ! k) \<noteq> Entry_Id (value ! j)"
  proof (intro allI impI)
    fix k
    assume k: "j < k \<and> k < length value"
    have "distinct (map Entry_Id value)"
      using assms(1) by (simp add: EntryList_unique_def)
    then have "(map Entry_Id value ! k = map Entry_Id value ! j) = (k = j)"
      using k assms(2) by (intro nth_eq_iff_index_eq) simp_all
    then show "Entry_Id (value ! k) \<noteq> Entry_Id (value ! j)"
      using k assms(2) by simp
  qed
qed (use assms in simp_all)

subsection \<open>The loop over the entries of the stream\<close>

lemma ReadEntries_loop_done:
  "\<not> i < count \<Longrightarrow> ReadEntries_loop N value count reader i = (Inr (), value, reader)"
  by (subst ReadEntries_loop.simps) simp

lemma ReadEntries_loop_step:
  assumes "i < count"
    and "Read (Encoding_uint64 N) 0 reader = (Inr (), ident, reader1)"
    and "ReadEntryForId N value ident reader1 (length value) = (Inr (), value', reader2)"
  shows "ReadEntries_loop N value count reader i =
    ReadEntries_loop N value' count reader2 (i + 1)"
  by (subst ReadEntries_loop.simps) (simp add: assms)

lemma ReadEntries_zero: "ReadEntries N value 0 reader = (Inr (), value, reader)"
  by (simp add: ReadEntries_def ReadEntries_loop_done)

subsection \<open>The errors of the decoder\<close>

lemmas eval_read =
  Table_Read_def Table_ReadPayload_def Table_Match_def ReadEntries_def ReadEntries_loop.simps
  SkipEntry_def Reader_Skip_def from_bytes_def Linux_def Fixed64_def Padded_byte_def Example_def

text \<open>
  What \<^verbatim>\<open>ReadPayload\<close> returns on a fingerprint that does not match and what
  \<^verbatim>\<open>ReadEntryForId\<close> returns for an id whose entry is already filled, for any value of
  \<^verbatim>\<open>EPROTO\<close>: neither is the enumerator of status.h unless \<^verbatim>\<open>EPROTO\<close> happens to be 7 or 10.
\<close>

lemma hash_mismatch_error:
  assumes "Read (Encoding_uint64 N) 0 reader = (Inr (), h, reader1)" and "h \<noteq> Hash value"
  shows "fst (Table_ReadPayload N prefix value reader) = Inl (ErrorStatus (EPROTO N))"
  using assms by (simp add: Table_ReadPayload_def Let_def)

lemma duplicate_entry_error:
  assumes "EntryList_unique value" and "ActiveEntry ident T t0 (Some v) \<in> set value"
  shows "ReadEntryForId N value ident reader (length value) =
    (Inl (ErrorStatus (EPROTO N)), value, reader)"
proof -
  from assms(2) obtain j where j: "j < length value" "value ! j = ActiveEntry ident T t0 (Some v)"
    by (auto simp: in_set_conv_nth)
  show ?thesis
    using ReadEntryForId_unique [OF assms(1) j(1), of N reader] j
    by (simp add: list_update_same_conv)
qed

lemma EPROTO_enumerator:
  "ErrorStatus (EPROTO N) = InvalidTableHash \<longleftrightarrow> EPROTO N = 7"
  "ErrorStatus (EPROTO N) = DuplicateTableEntry \<longleftrightarrow> EPROTO N = 10"
  by (simp_all add: InvalidTableHash_def DuplicateTableEntry_def)

text \<open>
  C2. A stream whose fingerprint differs from the hash of the destination table is rejected,
  but not with \<^verbatim>\<open>ErrorStatus::InvalidTableHash\<close>: \<^verbatim>\<open>ReadPayload\<close> returns
  \<^verbatim>\<open>ErrorStatus(EPROTO)\<close>, the errno value cast into the enumeration. On Linux that is the
  value 71, which is none of the enumerators and whose message is the default one. Here the
  destination has the hash 0x0102030405060708 and the stream starts with 0x0102030405060709.
\<close>

theorem C2_hash_mismatch_returns_EPROTO:
  "Table_ReadPayload Linux 0xb5 (Example None None)
     [1, 2, 3, 4, 5, 6, 7, 9, 0, 0, 0, 0, 0, 0, 0, 0] =
   (Inl (ErrorStatus 71), Example None None, [0, 0, 0, 0, 0, 0, 0, 0])
   \<and> ErrorStatus 71 \<noteq> InvalidTableHash
   \<and> GetErrorMessage (ErrorStatus 71) = ''Unknown Error''
   \<and> GetErrorMessage InvalidTableHash = ''Invalid Table Hash''"
  by (simp add: eval_read InvalidTableHash_def)

text \<open>
  C3. A stream with two entries for the id 0 of an active slot is rejected at the second
  entry, whether the two values agree (7 and 7) or not (7 and 8), with the first value in
  the table and the stream left behind the second id, but not with
  \<^verbatim>\<open>ErrorStatus::DuplicateTableEntry\<close>: \<^verbatim>\<open>ReadEntry\<close> returns \<^verbatim>\<open>ErrorStatus(EPROTO)\<close>, on
  Linux the value 71, which is none of the enumerators.
\<close>

theorem C3_duplicate_entry_returns_EPROTO:
  "Table_ReadPayload Linux 0xb5 (Example None None)
     ([1, 2, 3, 4, 5, 6, 7, 8, 0, 0, 0, 0, 0, 0, 0, 2] @
      [0, 0, 0, 0, 0, 0, 0, 0, 0xbc, 0, 0, 0, 0, 0, 0, 0, 2, 7, 0] @
      [0, 0, 0, 0, 0, 0, 0, 0, 0xbc, 0, 0, 0, 0, 0, 0, 0, 2, 7, 0]) =
   (Inl (ErrorStatus 71), Example (Some 7) None, [0xbc, 0, 0, 0, 0, 0, 0, 0, 2, 7, 0])
   \<and> Table_ReadPayload Linux 0xb5 (Example None None)
       ([1, 2, 3, 4, 5, 6, 7, 8, 0, 0, 0, 0, 0, 0, 0, 2] @
        [0, 0, 0, 0, 0, 0, 0, 0, 0xbc, 0, 0, 0, 0, 0, 0, 0, 2, 7, 0] @
        [0, 0, 0, 0, 0, 0, 0, 0, 0xbc, 0, 0, 0, 0, 0, 0, 0, 2, 8, 0]) =
     (Inl (ErrorStatus 71), Example (Some 7) None, [0xbc, 0, 0, 0, 0, 0, 0, 0, 2, 8, 0])
   \<and> ErrorStatus 71 \<noteq> DuplicateTableEntry
   \<and> GetErrorMessage (ErrorStatus 71) = ''Unknown Error''
   \<and> GetErrorMessage DuplicateTableEntry = ''Duplicate Table Hash''"
  by (simp add: eval_read DuplicateTableEntry_def)

subsection \<open>Entries that the decoding schema does not read\<close>

text \<open>
  C4. For an id that matches no slot of the decoding table, \<^verbatim>\<open>ReadEntryForId\<close> is
  \<^verbatim>\<open>SkipEntry\<close> and leaves the table as it is. On a wire entry (the id, the binary-region
  marker, the declared size and that many bytes) it succeeds and consumes exactly the entry,
  and the loop of \<^verbatim>\<open>ReadEntries\<close> goes on with the next entry, the table unchanged: the
  rest of the stream is decoded as it would be without the unknown entry.
\<close>

theorem C4_unknown_id_skipped:
  assumes "uint64_reads N" and "ident \<notin> Entry_Id ` set value"
    and "length blob = unat sz" and "i < count"
  shows "ReadEntryForId N value ident reader (length value) =
      (fst (SkipEntry N reader), value, snd (SkipEntry N reader))
    \<and> ReadEntryForId N value ident
        ([EncodingByte_Binary N] @ wire_uint64 N sz @ blob @ rest) (length value) =
      (Inr (), value, rest)
    \<and> ReadEntries_loop N value count
        (wire_uint64 N ident @ [EncodingByte_Binary N] @ wire_uint64 N sz @ blob @ rest) i =
      ReadEntries_loop N value count rest (i + 1)"
proof -
  have a: "ReadEntryForId N value ident r (length value) =
      (fst (SkipEntry N r), value, snd (SkipEntry N r))" for r
    using assms(2) by (simp add: ReadEntryForId_unknown split: prod.split)
  have b: "ReadEntryForId N value ident
        ([EncodingByte_Binary N] @ wire_uint64 N sz @ blob @ rest) (length value) =
      (Inr (), value, rest)"
    unfolding a SkipEntry_wire [OF assms(1,3)] by simp
  have "Read (Encoding_uint64 N) 0
        (wire_uint64 N ident @ [EncodingByte_Binary N] @ wire_uint64 N sz @ blob @ rest) =
      (Inr (), ident, [EncodingByte_Binary N] @ wire_uint64 N sz @ blob @ rest)"
    using assms(1) by (simp add: uint64_reads_def)
  from ReadEntries_loop_step [OF assms(4) this b] a b show ?thesis
    by simp
qed

theorem C4_unknown_id_skipped_witness:
  "Table_Read Linux (Example (Some 1) (Some 3))
     ([0xb5, 1, 2, 3, 4, 5, 6, 7, 8, 0, 0, 0, 0, 0, 0, 0, 3] @
      [0, 0, 0, 0, 0, 0, 0, 0, 0xbc, 0, 0, 0, 0, 0, 0, 0, 2, 7, 0] @
      [0, 0, 0, 0, 0, 0, 0, 5, 0xbc, 0, 0, 0, 0, 0, 0, 0, 3, 0xaa, 0xbb, 0xcc] @
      [0, 0, 0, 0, 0, 0, 0, 2, 0xbc, 0, 0, 0, 0, 0, 0, 0, 2, 9, 0] @ [0xee]) =
   (Inr (), Example (Some 7) (Some 9), [0xee])"
proof -
  let ?known = "[ActiveEntry 0 Padded_byte 0 (Some 7), DeletedEntry 1,
    ActiveEntry 2 Padded_byte 0 None]"
  let ?next = "[0, 0, 0, 0, 0, 0, 0, 2, 0xbc, 0, 0, 0, 0, 0, 0, 0, 2, 9, 0, 0xee] :: byte list"
  have "ReadEntries_loop Linux ?known 3
      (wire_uint64 Linux 5 @ [EncodingByte_Binary Linux] @ wire_uint64 Linux 3 @
         [0xaa, 0xbb, 0xcc] @ ?next) 1 =
    ReadEntries_loop Linux ?known 3 ?next (1 + 1)"
    using C4_unknown_id_skipped [OF Linux_uint64_reads, of 5 ?known "[0xaa, 0xbb, 0xcc]" 3 1 3]
    by simp
  then have skip: "ReadEntries_loop Linux ?known 3
      ([0, 0, 0, 0, 0, 0, 0, 5, 0xbc, 0, 0, 0, 0, 0, 0, 0, 3, 0xaa, 0xbb, 0xcc] @ ?next) 1 =
    ReadEntries_loop Linux ?known 3 ?next 2"
    by (simp add: to_bytes_def)
  have "ReadEntries_loop Linux (map Entry_clear (Entries (Example (Some 1) (Some 3)))) 3
      ([0, 0, 0, 0, 0, 0, 0, 0, 0xbc, 0, 0, 0, 0, 0, 0, 0, 2, 7, 0] @
       [0, 0, 0, 0, 0, 0, 0, 5, 0xbc, 0, 0, 0, 0, 0, 0, 0, 3, 0xaa, 0xbb, 0xcc] @ ?next) 0 =
    ReadEntries_loop Linux ?known 3
      ([0, 0, 0, 0, 0, 0, 0, 5, 0xbc, 0, 0, 0, 0, 0, 0, 0, 3, 0xaa, 0xbb, 0xcc] @ ?next) 1"
    by (subst ReadEntries_loop.simps) (simp add: eval_read)
  also note skip
  also have "ReadEntries_loop Linux ?known 3 ?next 2 =
    (Inr (), Entries (Example (Some 7) (Some 9)), [0xee])"
    by (simp add: eval_read)
  finally show ?thesis
    by (simp add: Table_Read_def Table_ReadPayload_def Table_Match_def ReadEntries_def
        ClearEntries_eq from_bytes_def Fixed64_def Linux_def Example_def)
qed

text \<open>
  C7. For an id that matches a deleted slot of the decoding table, \<^verbatim>\<open>ReadEntryForId\<close> is
  \<^verbatim>\<open>SkipEntry\<close>, as it is for an unknown id, and leaves the table as it is, the deleted
  slot empty. On a wire entry (the binary-region marker, the declared size and that many
  bytes) it succeeds and consumes exactly the entry.
\<close>

theorem C7_deleted_id_skipped:
  assumes "uint64_reads N" and "EntryList_unique value" and "DeletedEntry ident \<in> set value"
    and "length blob = unat sz"
  shows "ReadEntryForId N value ident reader (length value) =
      (fst (SkipEntry N reader), value, snd (SkipEntry N reader))
    \<and> ReadEntryForId N value ident
        ([EncodingByte_Binary N] @ wire_uint64 N sz @ blob @ rest) (length value) =
      (Inr (), value, rest)
    \<and> Entry_empty (DeletedEntry ident :: 'a Entry)"
proof -
  from assms(3) obtain j where j: "j < length value" "value ! j = DeletedEntry ident"
    by (auto simp: in_set_conv_nth)
  have a: "ReadEntryForId N value ident r (length value) =
      (fst (SkipEntry N r), value, snd (SkipEntry N r))" for r
    using ReadEntryForId_unique [OF assms(2) j(1), of N r] j
    by (simp add: list_update_same_conv split: prod.split)
  show ?thesis
    unfolding a SkipEntry_wire [OF assms(1,4)] by simp
qed

theorem C7_deleted_id_skipped_witness:
  "ReadEntryForId Linux (Entries (Example None None)) 1
     [0xbc, 0, 0, 0, 0, 0, 0, 0, 3, 0xaa, 0xbb, 0xcc, 0xee]
     (length (Entries (Example None None :: byte Table))) =
   (Inr (), Entries (Example None None), [0xee])"
  using C7_deleted_id_skipped [OF Linux_uint64_reads Example_unique,
      of 1 None None "[0xaa, 0xbb, 0xcc]" 3 "[]" "[0xee]"]
  by (simp add: Example_def to_bytes_def)

subsection \<open>The empty table\<close>

lemma WriteEntry_absent: "\<not> Entry_bool e \<Longrightarrow> WriteEntry N e writer = (Inr (), writer)"
  by (cases e) (auto simp: Entry_bool_def split: option.splits)

lemma WriteEntries_absent:
  "n \<le> length value \<Longrightarrow> \<forall>e\<in>set value. \<not> Entry_bool e \<Longrightarrow>
   WriteEntries N value writer n = (Inr (), writer)"
  by (induction n) (simp_all add: WriteEntry_absent)

text \<open>
  C8. A table without a present active entry, whatever deleted and empty active slots it
  has, is written as the table marker, the fingerprint and the count 0, and nothing else;
  reading that stream into a table with the same hash succeeds, consumes exactly these
  bytes and leaves every slot empty. The same holds for the payload alone
  (\<^verbatim>\<open>WritePayload\<close> and \<^verbatim>\<open>ReadPayload\<close>), without the marker.
\<close>

theorem C8_empty_table:
  assumes "uint64_writes N" and "uint64_reads N"
    and "\<forall>e\<in>set (Entries t). \<not> Entry_bool e" and "Hash dst = Hash t"
  shows "Table_Write N t writer =
      (Inr (), writer @ [EncodingByte_Table N] @ wire_uint64 N (Hash t) @ wire_uint64 N 0)
    \<and> Table_Read N dst
        ([EncodingByte_Table N] @ wire_uint64 N (Hash t) @ wire_uint64 N 0 @ rest) =
      (Inr (), dst\<lparr>Entries := map Entry_clear (Entries dst)\<rparr>, rest)
    \<and> Table_WritePayload N prefix t writer =
      (Inr (), writer @ wire_uint64 N (Hash t) @ wire_uint64 N 0)
    \<and> Table_ReadPayload N prefix dst (wire_uint64 N (Hash t) @ wire_uint64 N 0 @ rest) =
      (Inr (), dst\<lparr>Entries := map Entry_clear (Entries dst)\<rparr>, rest)
    \<and> list_all Entry_empty (map Entry_clear (Entries dst))"
proof -
  have w: "Write (Encoding_uint64 N) x wr = (Inr (), wr @ wire_uint64 N x)" for x wr
    using assms(1) by (simp add: uint64_writes_def)
  have r: "Read (Encoding_uint64 N) x (wire_uint64 N y @ rd) = (Inr (), y, rd)" for x y rd
    using assms(2) by (simp add: uint64_reads_def)
  have "filter Entry_bool (Entries t) = []"
    using assms(3) by (simp add: filter_empty_conv)
  then have c: "ActiveEntryCount (Entries t) (length (Entries t)) = 0"
    by (simp add: ActiveEntryCount_eq present_count_def)
  have wp: "Table_WritePayload N p t wr =
      (Inr (), wr @ wire_uint64 N (Hash t) @ wire_uint64 N 0)" for p wr
    by (simp add: Table_WritePayload_def w c WriteEntries_absent [OF _ assms(3)])
  have rp: "Table_ReadPayload N p dst (wire_uint64 N (Hash t) @ wire_uint64 N 0 @ rest) =
      (Inr (), dst\<lparr>Entries := map Entry_clear (Entries dst)\<rparr>, rest)" for p
    by (simp add: Table_ReadPayload_def r assms(4) ClearEntries_eq ReadEntries_zero)
  have "Table_Write N t writer =
      (Inr (), writer @ [EncodingByte_Table N] @ wire_uint64 N (Hash t) @ wire_uint64 N 0)"
    by (simp add: Table_Write_def Writer_Write_def Table_Prefix_def wp)
  moreover have "Table_Read N dst
        ([EncodingByte_Table N] @ wire_uint64 N (Hash t) @ wire_uint64 N 0 @ rest) =
      (Inr (), dst\<lparr>Entries := map Entry_clear (Entries dst)\<rparr>, rest)"
    by (simp add: Table_Read_def Table_Match_def rp)
  moreover have "list_all Entry_empty (map Entry_clear (Entries dst))"
    by (simp add: list_all_iff)
  ultimately show ?thesis
    using wp rp by simp
qed

theorem C8_empty_table_witness:
  "Table_Write Linux (Example None None) [] =
     (Inr (), [0xb5, 1, 2, 3, 4, 5, 6, 7, 8, 0, 0, 0, 0, 0, 0, 0, 0])
   \<and> Table_Read Linux (Example (Some 1) (Some 3))
       [0xb5, 1, 2, 3, 4, 5, 6, 7, 8, 0, 0, 0, 0, 0, 0, 0, 0] =
     (Inr (), Example None None, [])"
proof -
  have "\<forall>e\<in>set (Entries (Example None None :: byte Table)). \<not> Entry_bool e"
    by (simp add: Example_def)
  from C8_empty_table [OF Linux_uint64_writes Linux_uint64_reads this,
      of "Example (Some 1) (Some 3)" "[]" "[]"]
  show ?thesis
    by (simp add: Example_def to_bytes_def)
qed

subsection \<open>The destination is cleared first\<close>

lemma ClearEntries_map_clear:
  "ClearEntries (map Entry_clear value) (length value) = map Entry_clear value"
  using ClearEntries_eq [of "map Entry_clear value"] by simp

lemma ReadEntry_clear:
  "ReadEntry N e reader = (status, e', reader') \<Longrightarrow> Entry_clear e' = Entry_clear e"
  by (cases e) (auto split: if_splits prod.splits sum.splits option.splits)

lemma ReadEntryForId_clear:
  "n \<le> length value \<Longrightarrow> ReadEntryForId N value ident reader n = (status, value', reader') \<Longrightarrow>
   map Entry_clear value' = map Entry_clear value"
proof (induction n)
  case 0
  then show ?case by (auto split: prod.splits)
next
  case (Suc n)
  show ?case
  proof (cases "Entry_Id (value ! n) = ident")
    case True
    obtain st e' r' where r: "ReadEntry N (value ! n) reader = (st, e', r')"
      by (cases "ReadEntry N (value ! n) reader") auto
    then have "Entry_clear e' = Entry_clear (value ! n)"
      by (rule ReadEntry_clear)
    moreover have "value' = value[n := e']"
      using Suc.prems(2) True r by simp
    ultimately show ?thesis
      using Suc.prems(1) by (simp add: map_update list_update_same_conv)
  next
    case False
    with Suc show ?thesis by simp
  qed
qed

lemma ReadEntries_loop_clear:
  "ReadEntries_loop N value count reader i = (status, value', reader') \<Longrightarrow>
   map Entry_clear value' = map Entry_clear value"
proof (induction N "value" count reader i rule: ReadEntries_loop.induct)
  case (1 N "value" count reader i)
  show ?case
  proof (cases "i < count")
    case False
    with "1.prems" show ?thesis
      by (simp add: ReadEntries_loop_done)
  next
    case True
    obtain s1 ident reader1 where rd: "Read (Encoding_uint64 N) 0 reader = (s1, ident, reader1)"
      by (cases "Read (Encoding_uint64 N) 0 reader") auto
    show ?thesis
    proof (cases s1)
      case (Inl e)
      with "1.prems" True rd show ?thesis
        by (subst (asm) ReadEntries_loop.simps) simp
    next
      case (Inr u)
      obtain s2 value2 reader2 where
        en: "ReadEntryForId N value ident reader1 (length value) = (s2, value2, reader2)"
        by (cases "ReadEntryForId N value ident reader1 (length value)") auto
      then have c2: "map Entry_clear value2 = map Entry_clear value"
        by (rule ReadEntryForId_clear [OF le_refl])
      show ?thesis
      proof (cases s2)
        case (Inl e)
        with "1.prems" True rd Inr en c2 show ?thesis
          by (subst (asm) ReadEntries_loop.simps) simp
      next
        case inr: (Inr u2)
        have "ReadEntries_loop N value2 count reader2 (i + 1) = (status, value', reader')"
          using "1.prems" True rd Inr en inr
          by (subst (asm) ReadEntries_loop.simps) simp
        then have "map Entry_clear value' = map Entry_clear value2"
          using "1.IH" [OF True _ _ _ _ _ _] rd Inr en inr by auto
        with c2 show ?thesis by simp
      qed
    qed
  qed
qed

lemma Table_ReadPayload_clear:
  "map Entry_clear (Entries (fst (snd (Table_ReadPayload N prefix value reader)))) =
   map Entry_clear (Entries value)"
proof -
  have "map Entry_clear es = map Entry_clear (Entries value)"
    if "ReadEntries N (map Entry_clear (Entries value)) count r = (st, es, r')"
    for count r st es r'
    using ReadEntries_loop_clear [OF that [unfolded ReadEntries_def]] by (simp add: comp_def)
  then show ?thesis
    by (auto simp add: Table_ReadPayload_def Let_def ClearEntries_eq comp_def
        split: prod.splits sum.splits)
qed

lemma ReadEntryForId_PointerFor:
  "ReadEntryForId N value ident reader n =
     (case PointerFor value ident n of
        None \<Rightarrow> (case SkipEntry N reader of (status, reader') \<Rightarrow> (status, value, reader'))
      | Some j \<Rightarrow>
          (case ReadEntry N (value ! j) reader of
             (status, entry, reader') \<Rightarrow> (status, value[j := entry], reader')))"
  by (induction n) simp_all

lemma PointerFor_less: "PointerFor value ident n = Some j \<Longrightarrow> j < n"
  by (induction n) (auto split: if_splits)

lemma ReadEntry_constructs_result:
  assumes "ReadEntry N e reader = (status, e', reader')"
  shows "if ReadEntry_constructs N e reader then Entry_empty e \<and> \<not> Entry_empty e' else e' = e"
  using assms
  by (cases e) (auto split: if_splits prod.splits sum.splits option.splits)

lemma ReadEntryForId_populated_result:
  assumes "ReadEntryForId N value ident reader (length value) = (status, value', reader')"
    and "j < length value"
  shows "Entry_empty (value' ! j) \<longleftrightarrow>
    Entry_empty (value ! j) \<and> j \<notin> set (ReadEntryForId_populated N value ident reader)"
proof (cases "PointerFor value ident (length value)")
  case None
  with assms(1) show ?thesis
    by (auto simp: ReadEntryForId_PointerFor ReadEntryForId_populated_def split: prod.splits)
next
  case (Some k)
  then have k: "k < length value"
    by (rule PointerFor_less)
  obtain st e' r' where r: "ReadEntry N (value ! k) reader = (st, e', r')"
    by (cases "ReadEntry N (value ! k) reader") auto
  have v': "value' = value[k := e']"
    using assms(1) Some r by (simp add: ReadEntryForId_PointerFor)
  note c = ReadEntry_constructs_result [OF r]
  show ?thesis
  proof (cases "j = k")
    case True
    with c k show ?thesis
      by (auto simp: v' ReadEntryForId_populated_def Some split: if_splits)
  next
    case False
    with c assms(2) show ?thesis
      by (auto simp: v' ReadEntryForId_populated_def Some split: if_splits)
  qed
qed

lemma ReadEntryForId_length:
  "ReadEntryForId N value ident reader n = (status, value', reader') \<Longrightarrow>
   length value' = length value"
  by (induction n) (auto split: if_splits prod.splits)

lemma ReadEntries_populated_done:
  "\<not> i < count \<Longrightarrow> ReadEntries_populated N value count reader i = []"
  by (subst ReadEntries_populated.simps) simp

lemma ReadEntries_populated_step:
  "i < count \<Longrightarrow>
   ReadEntries_populated N value count reader i =
     (case Read (Encoding_uint64 N) 0 reader of
        (Inl e, ident, reader1) \<Rightarrow> []
      | (Inr _, ident, reader1) \<Rightarrow>
          ReadEntryForId_populated N value ident reader1 @
          (case ReadEntryForId N value ident reader1 (length value) of
             (Inl e, value', reader2) \<Rightarrow> []
           | (Inr _, value', reader2) \<Rightarrow>
               ReadEntries_populated N value' count reader2 (i + 1)))"
  by (subst ReadEntries_populated.simps) simp

lemma ReadEntries_populated_result:
  "ReadEntries_loop N value count reader i = (status, value', reader') \<Longrightarrow>
   j < length value \<Longrightarrow>
   Entry_empty (value' ! j) \<longleftrightarrow>
     Entry_empty (value ! j) \<and> j \<notin> set (ReadEntries_populated N value count reader i)"
proof (induction N "value" count reader i rule: ReadEntries_loop.induct)
  case (1 N "value" count reader i)
  show ?case
  proof (cases "i < count")
    case False
    with "1.prems" show ?thesis
      by (auto simp add: ReadEntries_loop_done ReadEntries_populated_done)
  next
    case True
    obtain s1 ident reader1 where rd: "Read (Encoding_uint64 N) 0 reader = (s1, ident, reader1)"
      by (cases "Read (Encoding_uint64 N) 0 reader") auto
    show ?thesis
    proof (cases s1)
      case (Inl e)
      with "1.prems" True rd show ?thesis
        by (subst (asm) ReadEntries_loop.simps)
          (auto simp add: ReadEntries_populated_step)
    next
      case (Inr u)
      obtain s2 value2 reader2 where
        en: "ReadEntryForId N value ident reader1 (length value) = (s2, value2, reader2)"
        by (cases "ReadEntryForId N value ident reader1 (length value)") auto
      have step: "Entry_empty (value2 ! j) \<longleftrightarrow>
          Entry_empty (value ! j) \<and> j \<notin> set (ReadEntryForId_populated N value ident reader1)"
        using en "1.prems"(2) by (rule ReadEntryForId_populated_result)
      have len: "length value2 = length value"
        using en by (rule ReadEntryForId_length)
      show ?thesis
      proof (cases s2)
        case (Inl e)
        have "value' = value2"
          using "1.prems"(1) True rd Inr en Inl by (subst (asm) ReadEntries_loop.simps) simp
        with step True rd Inr en Inl show ?thesis
          by (simp add: ReadEntries_populated_step)
      next
        case inr: (Inr u2)
        have "ReadEntries_loop N value2 count reader2 (i + 1) = (status, value', reader')"
          using "1.prems"(1) True rd Inr en inr
          by (subst (asm) ReadEntries_loop.simps) simp
        then have "Entry_empty (value' ! j) \<longleftrightarrow>
            Entry_empty (value2 ! j) \<and>
            j \<notin> set (ReadEntries_populated N value2 count reader2 (i + 1))"
          using "1.IH" [OF True _ _ _ _ _ _] rd Inr en inr "1.prems"(2) len by auto
        with step True rd Inr en inr show ?thesis
          by (simp add: ReadEntries_populated_step)
      qed
    qed
  qed
qed

lemma Table_ReadPayload_populated:
  assumes "j < length (Entries value)"
  shows "Entry_empty (Entries (fst (snd (Table_ReadPayload N prefix value reader))) ! j) \<longleftrightarrow>
    j \<notin> set (ReadPayload_populated N value reader)"
proof -
  have "Entry_empty (es ! j) \<longleftrightarrow>
      j \<notin> set (ReadEntries_populated N (map Entry_clear (Entries value)) count r 0)"
    if "ReadEntries N (map Entry_clear (Entries value)) count r = (st, es, r')"
    for count r st es r'
    using ReadEntries_populated_result [OF that [unfolded ReadEntries_def], of j] assms
    by simp
  then show ?thesis
    using assms
    by (auto simp add: Table_ReadPayload_def ReadPayload_populated_def Let_def ClearEntries_eq
        split: prod.splits sum.splits)
qed

lemmas eval_populated =
  ReadPayload_populated_def ReadEntries_populated.simps ReadEntryForId_populated_def
  ClearEntries_eq

text \<open>
  C9. \<^verbatim>\<open>ReadPayload\<close>, where the decoding of section 4.4 starts, clears every entry of the
  destination before it reads from the stream:
  what it returns, the table included, is what it returns for the destination with every
  entry cleared, so nothing of the earlier values survives. The table is returned cleared
  when the fingerprint cannot be read and when the fingerprint does not match, so a failed
  decode does not leave the destination as it was. Whatever the outcome, the table returned
  differs from the cleared destination at most in what \<^verbatim>\<open>ReadEntry\<close> has put into active
  entries, and, with success or after a failure at any point, the entries that are not empty
  are exactly the ones that the decode has populated by then: those to which \<^verbatim>\<open>ReadEntry\<close>
  has assigned \<^verbatim>\<open>T{}\<close> for an entry of the stream. That includes the entry whose value
  then fails to decode: it stays in the table, holding what the decoder has made of
  \<^verbatim>\<open>T{}\<close>.
\<close>

theorem C9_destination_cleared_first:
  "Table_ReadPayload N prefix value reader =
     Table_ReadPayload N prefix (value\<lparr>Entries := map Entry_clear (Entries value)\<rparr>) reader
   \<and> (Read (Encoding_uint64 N) 0 reader = (Inl e, h, reader1) \<longrightarrow>
        Table_ReadPayload N prefix value reader =
          (Inl e, value\<lparr>Entries := map Entry_clear (Entries value)\<rparr>, reader1))
   \<and> (Read (Encoding_uint64 N) 0 reader = (Inr (), h, reader1) \<and> h \<noteq> Hash value \<longrightarrow>
        Table_ReadPayload N prefix value reader =
          (Inl (ErrorStatus (EPROTO N)),
           value\<lparr>Entries := map Entry_clear (Entries value)\<rparr>, reader1))
   \<and> map Entry_clear (Entries (fst (snd (Table_ReadPayload N prefix value reader)))) =
       map Entry_clear (Entries value)
   \<and> (\<forall>j<length (Entries value).
        Entry_empty (Entries (fst (snd (Table_ReadPayload N prefix value reader))) ! j) \<longleftrightarrow>
          j \<notin> set (ReadPayload_populated N value reader))
   \<and> (Reader_Read rd = (Inr (EncodingByte_Binary N), rd1) \<and>
      Read (Encoding_uint64 N) 0 rd1 = (Inr (), sz, rd2) \<and>
      Read T t0 (BoundedReader rd2 sz 0) = (Inl e', v, bounded_reader) \<longrightarrow>
        ReadEntry_constructs N (ActiveEntry ident T t0 None) rd \<and>
        ReadEntry N (ActiveEntry ident T t0 None) rd =
          (Inl e', ActiveEntry ident T t0 (Some v), br_reader bounded_reader))"
proof (intro conjI)
  show "\<forall>j<length (Entries value).
      Entry_empty (Entries (fst (snd (Table_ReadPayload N prefix value reader))) ! j) \<longleftrightarrow>
        j \<notin> set (ReadPayload_populated N value reader)"
    by (simp add: Table_ReadPayload_populated)
  show "map Entry_clear (Entries (fst (snd (Table_ReadPayload N prefix value reader)))) =
      map Entry_clear (Entries value)"
    by (rule Table_ReadPayload_clear)
qed (simp_all add: Table_ReadPayload_def Let_def ClearEntries_eq ClearEntries_map_clear
    split: prod.split sum.split)

theorem C9_destination_cleared_first_witness:
  "Table_ReadPayload Linux 0xb5 (Example (Some 1) (Some 3))
     [1, 2, 3, 4, 5, 6, 7, 9, 0, 0, 0, 0, 0, 0, 0, 0] =
   (Inl (ErrorStatus 71), Example None None, [0, 0, 0, 0, 0, 0, 0, 0])
   \<and> Table_ReadPayload Linux 0xb5 (Example (Some 1) (Some 3))
       ([1, 2, 3, 4, 5, 6, 7, 8, 0, 0, 0, 0, 0, 0, 0, 2] @
        [0, 0, 0, 0, 0, 0, 0, 0, 0xbc, 0, 0, 0, 0, 0, 0, 0, 2, 7, 0] @
        [0, 0, 0, 0, 0, 0, 0, 2, 0xbb]) =
     (Inl (ErrorStatus 71), Example (Some 7) None, [])
   \<and> ReadPayload_populated Linux (Example (Some 1) (Some 3))
       ([1, 2, 3, 4, 5, 6, 7, 8, 0, 0, 0, 0, 0, 0, 0, 2] @
        [0, 0, 0, 0, 0, 0, 0, 0, 0xbc, 0, 0, 0, 0, 0, 0, 0, 2, 7, 0] @
        [0, 0, 0, 0, 0, 0, 0, 2, 0xbb]) = [0]
   \<and> Table_ReadPayload Linux 0xb5 (Example (Some 1) (Some 3))
       ([1, 2, 3, 4, 5, 6, 7, 8, 0, 0, 0, 0, 0, 0, 0, 1] @
        [0, 0, 0, 0, 0, 0, 0, 2, 0xbc, 0, 0, 0, 0, 0, 0, 0, 0, 9]) =
     (Inl ReadLimitReached, Example None (Some 0), [9])
   \<and> ReadPayload_populated Linux (Example (Some 1) (Some 3))
       ([1, 2, 3, 4, 5, 6, 7, 8, 0, 0, 0, 0, 0, 0, 0, 1] @
        [0, 0, 0, 0, 0, 0, 0, 2, 0xbc, 0, 0, 0, 0, 0, 0, 0, 0, 9]) = [2]
   \<and> Entry_empty (Entries (fst (snd (Table_ReadPayload Linux 0xb5 (Example (Some 1) (Some 3))
       ([1, 2, 3, 4, 5, 6, 7, 8, 0, 0, 0, 0, 0, 0, 0, 1] @
        [0, 0, 0, 0, 0, 0, 0, 2, 0xbc, 0, 0, 0, 0, 0, 0, 0, 0, 9])))) ! 0)"
proof -
  have rd: "Read (Encoding_uint64 Linux) 0 [1, 2, 3, 4, 5, 6, 7, 9, 0, 0, 0, 0, 0, 0, 0, 0] =
      (Inr (), 0x0102030405060709, [0, 0, 0, 0, 0, 0, 0, 0])"
    by (simp add: Linux_def Fixed64_def from_bytes_def)
  have ne: "(0x0102030405060709 :: u64) \<noteq> Hash (Example (Some 1) (Some 3) :: byte Table)"
    by (simp add: Example_def)
  let ?dst = "Example (Some 1) (Some 3) :: byte Table"
  let ?failing = "[1, 2, 3, 4, 5, 6, 7, 8, 0, 0, 0, 0, 0, 0, 0, 1] @
    [0, 0, 0, 0, 0, 0, 0, 2, 0xbc, 0, 0, 0, 0, 0, 0, 0, 0, 9] :: byte list"
  have "Table_ReadPayload Linux 0xb5 ?dst [1, 2, 3, 4, 5, 6, 7, 9, 0, 0, 0, 0, 0, 0, 0, 0] =
      (Inl (ErrorStatus (EPROTO Linux)), ?dst\<lparr>Entries := map Entry_clear (Entries ?dst)\<rparr>,
       [0, 0, 0, 0, 0, 0, 0, 0])"
    using C9_destination_cleared_first [of Linux "0xb5" ?dst
        "[1, 2, 3, 4, 5, 6, 7, 9, 0, 0, 0, 0, 0, 0, 0, 0]" undefined "0x0102030405060709"
        "[0, 0, 0, 0, 0, 0, 0, 0]", THEN conjunct2, THEN conjunct2, THEN conjunct1] rd ne
    by blast
  then have 1: "Table_ReadPayload Linux 0xb5 (Example (Some 1) (Some 3))
     [1, 2, 3, 4, 5, 6, 7, 9, 0, 0, 0, 0, 0, 0, 0, 0] =
   (Inl (ErrorStatus 71), Example None None, [0, 0, 0, 0, 0, 0, 0, 0])"
    by (simp add: Example_def)
  have 2: "Table_ReadPayload Linux 0xb5 (Example (Some 1) (Some 3))
       ([1, 2, 3, 4, 5, 6, 7, 8, 0, 0, 0, 0, 0, 0, 0, 2] @
        [0, 0, 0, 0, 0, 0, 0, 0, 0xbc, 0, 0, 0, 0, 0, 0, 0, 2, 7, 0] @
        [0, 0, 0, 0, 0, 0, 0, 2, 0xbb]) =
     (Inl (ErrorStatus 71), Example (Some 7) None, [])"
    by (simp add: eval_read)
  have 3: "ReadPayload_populated Linux (Example (Some 1) (Some 3))
       ([1, 2, 3, 4, 5, 6, 7, 8, 0, 0, 0, 0, 0, 0, 0, 2] @
        [0, 0, 0, 0, 0, 0, 0, 0, 0xbc, 0, 0, 0, 0, 0, 0, 0, 2, 7, 0] @
        [0, 0, 0, 0, 0, 0, 0, 2, 0xbb]) = [0]"
    by (simp add: eval_populated eval_read)
  have 4: "Table_ReadPayload Linux 0xb5 ?dst ?failing =
      (Inl ReadLimitReached, Example None (Some 0), [9])"
    by (simp add: eval_read)
  have 5: "ReadPayload_populated Linux ?dst ?failing = [2]"
    by (simp add: eval_populated eval_read)
  have "0 < length (Entries ?dst)"
    by (simp add: Example_def)
  then have "Entry_empty (Entries (fst (snd (Table_ReadPayload Linux 0xb5 ?dst ?failing))) ! 0)
      \<longleftrightarrow> 0 \<notin> set (ReadPayload_populated Linux ?dst ?failing)"
    using C9_destination_cleared_first [of Linux "0xb5" ?dst ?failing,
        THEN conjunct2, THEN conjunct2, THEN conjunct2, THEN conjunct2, THEN conjunct1]
    by blast
  then have 6: "Entry_empty (Entries (fst (snd (Table_ReadPayload Linux 0xb5 ?dst ?failing))) ! 0)"
    unfolding 5 by simp
  from 1 2 3 4 5 6 show ?thesis
    by (simp only: simp_thms)
qed

subsection \<open>Reading what was written\<close>











subsection \<open>The round trip\<close>



end
